theory Spec2Isabelle
  imports Complex_Main "HOL-Library.Word"
begin

section \<open>Python values\<close>

text \<open>
  A Python \<open>str\<close> is a sequence of Unicode code points, a \<open>bytes\<close> object a sequence of
  octets. \<open>len\<close> counts code points on the first and octets on the second, and the two
  differ as soon as a character is not ASCII, so the two types are kept apart.
\<close>

type_synonym pystr = "nat list"
type_synonym byte = "8 word"
type_synonym pybytes = "byte list"

definition lit :: "string \<Rightarrow> pystr" where
  "lit s = map of_char s"

definition blit :: "string \<Rightarrow> pybytes" where
  "blit s = map of_char s"

datatype py_error = IndexError | ValueError | UnicodeEncodeError

text \<open>\<open>s.ljust(w)\<close>, \<open>s.rjust(w)\<close> (fill character: space), \<open>s.endswith(suf)\<close>.\<close>

definition ljust :: "pystr \<Rightarrow> nat \<Rightarrow> pystr" where
  "ljust s w = s @ replicate (w - length s) 32"

definition rjust :: "pystr \<Rightarrow> nat \<Rightarrow> pystr" where
  "rjust s w = replicate (w - length s) 32 @ s"

definition endswith :: "'a list \<Rightarrow> 'a list \<Rightarrow> bool" where
  "endswith s suf = (length suf \<le> length s \<and> drop (length s - length suf) s = suf)"

text \<open>
  \<open>xs.find(sub)\<close> and \<open>xs.rfind(sub)\<close>: the lowest and the highest index at which
  \<open>sub\<close> occurs; Python's \<open>-1\<close> is \<open>None\<close>.
\<close>

definition startswith :: "'a list \<Rightarrow> 'a list \<Rightarrow> bool" where
  "startswith xs sub = (take (length sub) xs = sub)"

fun py_find :: "'a list \<Rightarrow> 'a list \<Rightarrow> nat option" where
  "py_find [] sub = (if sub = [] then Some 0 else None)"
| "py_find (x # xs) sub =
     (if startswith (x # xs) sub then Some 0 else map_option Suc (py_find xs sub))"

fun py_rfind :: "'a list \<Rightarrow> 'a list \<Rightarrow> nat option" where
  "py_rfind [] sub = (if sub = [] then Some 0 else None)"
| "py_rfind (x # xs) sub =
     (case py_rfind xs sub of
        Some i \<Rightarrow> Some (Suc i)
      | None \<Rightarrow> if startswith (x # xs) sub then Some 0 else None)"

text \<open>
  \<open>s.encode('utf-8')\<close>. A surrogate cannot be encoded (UnicodeEncodeError); a number
  from \<open>0x110000\<close> on is no character of a \<open>str\<close> and is refused the same way.
\<close>

definition utf8_char :: "nat \<Rightarrow> py_error + pybytes" where
  "utf8_char c =
     (if c < 0x80 then Inr [of_nat c]
      else if c < 0x800 then Inr [of_nat (0xC0 + c div 64), of_nat (0x80 + c mod 64)]
      else if c < 0x10000 then
        (if 0xD800 \<le> c \<and> c \<le> 0xDFFF then Inl UnicodeEncodeError
         else Inr [of_nat (0xE0 + c div 4096), of_nat (0x80 + (c div 64) mod 64),
                   of_nat (0x80 + c mod 64)])
      else if c < 0x110000 then
        Inr [of_nat (0xF0 + c div 262144), of_nat (0x80 + (c div 4096) mod 64),
             of_nat (0x80 + (c div 64) mod 64), of_nat (0x80 + c mod 64)]
      else Inl UnicodeEncodeError)"

fun utf8_encode :: "pystr \<Rightarrow> py_error + pybytes" where
  "utf8_encode [] = Inr []"
| "utf8_encode (c # cs) =
     (case utf8_char c of
        Inl e \<Rightarrow> Inl e
      | Inr bs \<Rightarrow> (case utf8_encode cs of Inl e \<Rightarrow> Inl e | Inr rest \<Rightarrow> Inr (bs @ rest)))"

section \<open>d04Injector.py: writing a block back into the .dat file\<close>

text \<open>
  \<open>with open(path, 'r+b') as f: f.seek(pos); f.write(bs)\<close> on a file holding \<open>f\<close>:
  the bytes from \<open>pos\<close> on are overwritten, the file grows when the write ends beyond
  its end (a gap before \<open>pos\<close> reads as zero bytes), and a write of no bytes does nothing.
\<close>

definition write_at :: "pybytes \<Rightarrow> nat \<Rightarrow> pybytes \<Rightarrow> pybytes" where
  "write_at f pos bs =
     (if bs = [] then f
      else take pos f @ replicate (pos - length f) 0 @ bs @ drop (pos + length bs) f)"

definition EXPECTED_FILE_SIZE :: nat where
  "EXPECTED_FILE_SIZE = 1629420 * 1024"

text \<open>
  What the user is shown when an injection returns (\<open>Returned_silently\<close> and
  \<open>No_source_chosen\<close>: a plain \<open>return\<close>, nothing is shown).
\<close>

datatype outcome =
    Warn_no_selection
  | Returned_silently
  | No_source_chosen
  | Error_too_long int
  | Error_padding_failed
  | Error_length_mismatch
  | Declined
  | Injected_size_verified
  | Injected_size_changed
  | Injected
  | Raised py_error

definition wrote :: "outcome \<Rightarrow> bool" where
  "wrote r = (r = Injected \<or> r = Injected_size_verified \<or> r = Injected_size_changed)"

record level_info =
  loc_start :: nat
  content_start :: nat
  content_end :: nat
  loc_end :: nat
  content_length :: nat

text \<open>
  \<open>inject_level\<close>. \<open>sel\<close> is the listbox selection, \<open>source\<close> the bytes of the file the
  user picked (\<open>None\<close> when the dialog is cancelled), \<open>pad_mode\<close> the radio button,
  \<open>confirm\<close> the answer to the confirmation box, \<open>dat\<close> the main .dat file.
\<close>

definition pad_level :: "string \<Rightarrow> pybytes \<Rightarrow> nat \<Rightarrow> pybytes" where
  "pad_level pad_mode new_content original_length =
     (if length new_content < original_length then
        (let diff = original_length - length new_content in
         if pad_mode = ''spaces_end'' then
           (case py_rfind new_content (blit ''</entityTree>'') of
              Some end_pos \<Rightarrow>
                take end_pos new_content @ replicate diff 32 @ drop end_pos new_content
            | None \<Rightarrow> new_content @ replicate diff 32)
         else new_content @ replicate diff 32)
      else new_content)"

definition inject_level ::
  "nat list \<Rightarrow> level_info list \<Rightarrow> pybytes option \<Rightarrow> string \<Rightarrow> bool \<Rightarrow> pybytes
     \<Rightarrow> outcome \<times> pybytes" where
  "inject_level sel level_offsets source pad_mode confirm dat =
     (if sel = [] \<or> level_offsets = [] then (Warn_no_selection, dat)
      else
        let idx = hd sel in
        if length level_offsets \<le> idx then (Raised IndexError, dat)
        else
          let info = level_offsets ! idx;
              original_length = content_length info
          in case source of
               None \<Rightarrow> (No_source_chosen, dat)
             | Some new_content \<Rightarrow>
                 let new_length = length new_content in
                 if new_length > original_length then
                   (Error_too_long (int new_length - int original_length), dat)
                 else
                   let padded = pad_level pad_mode new_content original_length in
                   if length padded \<noteq> original_length then (Error_padding_failed, dat)
                   else if \<not> confirm then (Declined, dat)
                   else
                     let dat' = write_at dat (content_start info) padded in
                     if length dat' = EXPECTED_FILE_SIZE then (Injected_size_verified, dat')
                     else (Injected_size_changed, dat'))"

text \<open>
  A scanned \<open><SMiData/>\<close>, \<open><SData/>\<close> or \<open><root>\<close> block: the offsets of its first byte
  and of the byte after its last, and its decoded text.
\<close>

record block =
  b_start :: nat
  b_end :: nat
  b_text :: pystr

text \<open>
  \<open>inject_smidata_block\<close>, \<open>inject_lighting_block\<close> and \<open>inject_warp_block\<close>.
  \<open>cur\<close> is the selected block (\<open>None\<close> before a selection), \<open>has_path\<close> says that a
  .dat file was chosen, and \<open>new_text\<close> is the value that \<open>build_smidata_text\<close>,
  \<open>build_lighting_text\<close> or \<open>build_warp_text\<close> returned for the block. On success the
  block remembers the new text.
\<close>

definition inject_smidata_block ::
  "block option \<Rightarrow> bool \<Rightarrow> pystr \<Rightarrow> bool \<Rightarrow> pybytes \<Rightarrow> outcome \<times> pybytes \<times> block option" where
  "inject_smidata_block cur has_path new_text confirm dat =
     (case cur of
        None \<Rightarrow> (Warn_no_selection, dat, cur)
      | Some blk \<Rightarrow>
          if \<not> has_path then (Warn_no_selection, dat, cur)
          else case utf8_encode new_text of
            Inl e \<Rightarrow> (Raised e, dat, cur)
          | Inr new_bytes \<Rightarrow>
              let orig_len = int (b_end blk) - int (b_start blk);
                  diff = orig_len - int (length new_bytes)
              in if int (length new_bytes) \<noteq> orig_len \<and> \<not> diff > 0 then
                   (Error_too_long (- diff), dat, cur)
                 else
                   let new_text' =
                         (if int (length new_bytes) \<noteq> orig_len then
                            take (length new_text - 2) new_text @ replicate (nat diff) 32
                              @ drop (length new_text - 2) new_text
                          else new_text)
                   in case utf8_encode new_text' of
                        Inl e \<Rightarrow> (Raised e, dat, cur)
                      | Inr new_bytes' \<Rightarrow>
                          if int (length new_bytes') \<noteq> orig_len then
                            (Error_length_mismatch, dat, cur)
                          else if \<not> confirm then (Declined, dat, cur)
                          else (Injected, write_at dat (b_start blk) new_bytes',
                                Some (blk\<lparr>b_text := new_text'\<rparr>)))"

definition inject_lighting_block ::
  "block option \<Rightarrow> pystr \<Rightarrow> bool \<Rightarrow> pybytes \<Rightarrow> outcome \<times> pybytes \<times> block option" where
  "inject_lighting_block cur new_text confirm dat =
     (case cur of
        None \<Rightarrow> (Returned_silently, dat, cur)
      | Some blk \<Rightarrow>
          case utf8_encode new_text of
            Inl e \<Rightarrow> (Raised e, dat, cur)
          | Inr new_bytes \<Rightarrow>
              let orig_len = int (b_end blk) - int (b_start blk)
              in if int (length new_bytes) \<noteq> orig_len then (Error_length_mismatch, dat, cur)
                 else if \<not> confirm then (Declined, dat, cur)
                 else (Injected, write_at dat (b_start blk) new_bytes,
                       Some (blk\<lparr>b_text := new_text\<rparr>)))"

definition inject_warp_block ::
  "block option \<Rightarrow> bool \<Rightarrow> pystr \<Rightarrow> bool \<Rightarrow> pybytes \<Rightarrow> outcome \<times> pybytes \<times> block option" where
  "inject_warp_block cur has_path new_text confirm dat =
     (case cur of
        None \<Rightarrow> (Warn_no_selection, dat, cur)
      | Some blk \<Rightarrow>
          if \<not> has_path then (Warn_no_selection, dat, cur)
          else case utf8_encode new_text of
            Inl e \<Rightarrow> (Raised e, dat, cur)
          | Inr new_bytes \<Rightarrow>
              let orig_len = int (b_end blk) - int (b_start blk);
                  diff = orig_len - int (length new_bytes)
              in if int (length new_bytes) \<noteq> orig_len \<and> \<not> diff > 0 then
                   (Error_too_long (- diff), dat, cur)
                 else
                   let new_bytes' =
                         (if int (length new_bytes) \<noteq> orig_len
                          then new_bytes @ replicate (nat diff) 32 else new_bytes)
                   in if int (length new_bytes') \<noteq> orig_len then
                        (Error_length_mismatch, dat, cur)
                      else if \<not> confirm then (Declined, dat, cur)
                      else (Injected, write_at dat (b_start blk) new_bytes',
                            Some (blk\<lparr>b_text := new_text\<rparr>)))"

section \<open>Fixed-width numbers\<close>

text \<open>
  \<open>format_strict\<close> (kata.py) and \<open>enforce_length\<close> (d04Injector.py). The f-strings
  \<open>f"{val:.10f}"\<close> and \<open>f"{val:.6f}"\<close> are Python's own float formatting: they are the
  parameters \<open>fmt10\<close> and \<open>fmt6\<close>, over any type \<open>'f\<close> of float values.
\<close>

definition format_strict :: "('f \<Rightarrow> pystr) \<Rightarrow> 'f \<Rightarrow> nat \<Rightarrow> pystr" where
  "format_strict fmt10 val width =
     (let s = fmt10 val;
          s = (if length s > width then
                 (let s = take width s in
                  if endswith s (lit ''.'') then rjust (butlast s) width else s)
               else s)
      in ljust s width)"

definition enforce_length :: "('f \<Rightarrow> pystr) \<Rightarrow> pystr \<Rightarrow> 'f \<Rightarrow> pystr" where
  "enforce_length fmt6 orig val =
     (let s = fmt6 val;
          s = (if length s < length orig then s @ replicate (length orig - length s) 48 else s)
      in take (length orig) s)"

text \<open>
  The frame of a write into the slot \<open>[start, start + n)\<close>: same size, same bytes before
  the slot and from its end on.
\<close>

definition same_outside :: "pybytes \<Rightarrow> pybytes \<Rightarrow> nat \<Rightarrow> nat \<Rightarrow> bool" where
  "same_outside dat dat' start n =
     (length dat' = length dat \<and> take start dat' = take start dat
      \<and> drop (start + n) dat' = drop (start + n) dat)"

section \<open>Example inputs\<close>

definition ex_info :: level_info where
  "ex_info = \<lparr>loc_start = 0, content_start = 5, content_end = 8, loc_end = 14, content_length = 3\<rparr>"

definition ex_block :: block where
  "ex_block = \<lparr>b_start = 2, b_end = 10, b_text = lit ''<a=\"1\"/>''\<rparr>"

definition ex_sdata :: block where
  "ex_sdata = \<lparr>b_start = 0, b_end = 17, b_text = lit ''<SData A=\"1  2\"/>''\<rparr>"

section \<open>kata.py: strings and entities\<close>

text \<open>
  \<open>str.isspace()\<close> on one character, which is also what \<open>\s\<close> matches in a \<open>str\<close>
  pattern and what \<open>str.strip()\<close> removes.
\<close>

definition py_isspace :: "nat \<Rightarrow> bool" where
  "py_isspace c =
     ((9 \<le> c \<and> c \<le> 13) \<or> (28 \<le> c \<and> c \<le> 32) \<or> c = 0x85 \<or> c = 0xA0 \<or> c = 0x1680
      \<or> (0x2000 \<le> c \<and> c \<le> 0x200A) \<or> c = 0x2028 \<or> c = 0x2029 \<or> c = 0x202F
      \<or> c = 0x205F \<or> c = 0x3000)"

definition strip :: "pystr \<Rightarrow> pystr" where
  "strip s = rev (dropWhile py_isspace (rev (dropWhile py_isspace s)))"

text \<open>\<open>s.zfill(w)\<close>: zeros on the left, after a leading sign.\<close>

definition zfill :: "pystr \<Rightarrow> int \<Rightarrow> pystr" where
  "zfill s w =
     (if w \<le> int (length s) then s
      else let fill = replicate (nat w - length s) 48 in
        (case s of
           [] \<Rightarrow> fill
         | c # cs \<Rightarrow> if c = 43 \<or> c = 45 then c # fill @ cs else fill @ s))"

text \<open>
  Slices with Python's integer bounds: \<open>s[:n]\<close>, \<open>s[n:]\<close> (a negative bound counts from
  the end) and \<open>s[a:b]\<close> for bounds that are not negative. \<open>find_int\<close> is \<open>find\<close> with
  Python's \<open>-1\<close>.
\<close>

definition py_take :: "'a list \<Rightarrow> int \<Rightarrow> 'a list" where
  "py_take s n = (if 0 \<le> n then take (nat n) s else take (length s - nat (- n)) s)"

definition py_drop :: "'a list \<Rightarrow> int \<Rightarrow> 'a list" where
  "py_drop s n = (if 0 \<le> n then drop (nat n) s else drop (length s - nat (- n)) s)"

definition slice :: "'a list \<Rightarrow> nat \<Rightarrow> nat \<Rightarrow> 'a list" where
  "slice s a b = drop a (take b s)"

definition find_int :: "'a list \<Rightarrow> 'a list \<Rightarrow> int" where
  "find_int xs sub = (case py_find xs sub of None \<Rightarrow> - 1 | Some i \<Rightarrow> int i)"

text \<open>
  The dictionary \<open>_parse_block\<close> builds for an entity. The coordinates are Python floats,
  modelled as reals; \<open>x\<close>, \<open>y\<close>, \<open>z\<close> are \<open>pos_x\<close>, \<open>pos_y\<close>, \<open>pos_z\<close>, the rotation
  \<open>rw\<close>, \<open>rx\<close>, \<open>ry\<close>, \<open>rz\<close> is \<open>rot_w\<close> to \<open>rot_z\<close>, and \<open>id\<close>, \<open>scale\<close> are \<open>ent_id\<close>,
  \<open>ent_scale\<close>.
\<close>

record entity =
  raw :: pystr
  p_raw_content :: pystr
  r_raw_content :: pystr
  p_indices :: "(nat \<times> nat) list"
  r_indices :: "(nat \<times> nat) list"
  id_tag_len :: nat
  pos_x :: real
  pos_y :: real
  pos_z :: real
  rot_x :: real
  rot_y :: real
  rot_z :: real
  rot_w :: real
  ent_id :: pystr
  pack :: pystr
  atk :: pystr
  mov :: pystr
  esc :: pystr
  spd :: pystr
  pth :: pystr
  ent_scale :: pystr
  plus_type :: pystr
  plus_fly_height :: pystr
  plus_roll_speed :: pystr
  plus_angle :: pystr
  parent_type :: pystr
  child_ids :: "pystr list"

section \<open>kata.py: parsing an entity block\<close>

text \<open>
  \<open>re.search(fr'<{t}>(.*?)</{t}>', src, re.DOTALL)\<close>, group 1: the text between the
  first \<open><t>\<close> and the first \<open></t>\<close> after it (the lazy \<open>.*?\<close> stops at the first
  closing tag, and no later start can match when the first one has no closing tag behind
  it). \<open>None\<close> when there is no match.
\<close>

definition re_tag :: "string \<Rightarrow> pystr \<Rightarrow> pystr option" where
  "re_tag t src =
     (case py_find src (lit (''<'' @ t @ ''>'')) of
        None \<Rightarrow> None
      | Some i \<Rightarrow>
          (let rest = drop (i + length (lit (''<'' @ t @ ''>''))) src in
           case py_find rest (lit (''</'' @ t @ ''>'')) of
             None \<Rightarrow> None
           | Some j \<Rightarrow> Some (take j rest)))"

definition get_t :: "string \<Rightarrow> pystr \<Rightarrow> pystr \<times> nat" where
  "get_t t src = (case re_tag t src of Some g \<Rightarrow> (g, length g) | None \<Rightarrow> ([], 0))"

fun find_val :: "string list \<Rightarrow> pystr \<Rightarrow> pystr" where
  "find_val [] src = lit ''0''"
| "find_val (t # tags) src =
     (case re_tag t src of Some g \<Rightarrow> strip g | None \<Rightarrow> find_val tags src)"

text \<open>
  \<open>re.finditer(r'[^\s]+', s)\<close>: the spans \<open>(m.start(), m.end())\<close> of the maximal runs of
  characters that are not whitespace. \<open>spans pos open s\<close> scans \<open>s\<close>, which starts at
  offset \<open>pos\<close>; \<open>open\<close> is the start of the run being read.
\<close>

fun spans :: "nat \<Rightarrow> nat option \<Rightarrow> pystr \<Rightarrow> (nat \<times> nat) list" where
  "spans pos None [] = []"
| "spans pos (Some st) [] = [(st, pos)]"
| "spans pos None (c # cs) =
     (if py_isspace c then spans (Suc pos) None cs else spans (Suc pos) (Some pos) cs)"
| "spans pos (Some st) (c # cs) =
     (if py_isspace c then (st, pos) # spans (Suc pos) None cs else spans (Suc pos) (Some st) cs)"

definition token_spans :: "pystr \<Rightarrow> (nat \<times> nat) list" where
  "token_spans s = spans 0 None s"

text \<open>
  The numbers of a \<open><posi>\<close> or \<open><roll>\<close> content: with exactly \<open>n\<close> tokens each is
  converted by \<open>float\<close> (the parameter \<open>pyfloat\<close>, \<open>None\<close> for ValueError), otherwise the
  default values and no spans.
\<close>

definition parse_numbers ::
  "(pystr \<Rightarrow> real option) \<Rightarrow> nat \<Rightarrow> real list \<Rightarrow> pystr \<Rightarrow> py_error + (real list \<times> (nat \<times> nat) list)" where
  "parse_numbers pyfloat n dflt content =
     (let matches = token_spans content in
      if length matches = n then
        (case those (map (\<lambda>(s, e). pyfloat (slice content s e)) matches) of
           None \<Rightarrow> Inl ValueError
         | Some vs \<Rightarrow> Inr (vs, matches))
      else Inr (dflt, []))"

definition parse_block :: "(pystr \<Rightarrow> real option) \<Rightarrow> pystr \<Rightarrow> py_error + entity" where
  "parse_block pyfloat b =
     (let (p_raw, p_len) = get_t ''posi'' b in
      case parse_numbers pyfloat 3 [0, 0, 0] p_raw of
        Inl err \<Rightarrow> Inl err
      | Inr (p, p_idx) \<Rightarrow>
          (let (r_raw, r_len) = get_t ''roll'' b in
           case parse_numbers pyfloat 4 [0, 0, 0, 1] r_raw of
             Inl err \<Rightarrow> Inl err
           | Inr (r, r_idx) \<Rightarrow>
               (let (id_raw, id_len) = get_t ''index'' b in
                Inr \<lparr>raw = b, p_raw_content = p_raw, r_raw_content = r_raw,
                     p_indices = p_idx, r_indices = r_idx, id_tag_len = id_len,
                     pos_x = p ! 0, pos_y = p ! 1, pos_z = p ! 2,
                     rot_x = r ! 1, rot_y = r ! 2, rot_z = r ! 3, rot_w = r ! 0,
                     ent_id = strip id_raw,
                     pack = strip (fst (get_t ''pack_id'' b)),
                     atk = strip (fst (get_t ''attack_type'' b)),
                     mov = strip (fst (get_t ''move_type'' b)),
                     esc = strip (fst (get_t ''escape_type'' b)),
                     spd = find_val [''move_speed'', ''speed''] b,
                     pth = find_val [''move_path_id'', ''path_id''] b,
                     ent_scale = find_val [''scale''] b,
                     plus_type = find_val [''plus_type''] b,
                     plus_fly_height = find_val [''plus_fly_height''] b,
                     plus_roll_speed = find_val [''plus_roll_speed''] b,
                     plus_angle = find_val [''plus_angle''] b,
                     parent_type = find_val [''parent_type''] b,
                     child_ids = []\<rparr>)))"

section \<open>kata.py: hierarchy depth\<close>

text \<open>
  The dictionary \<open>parent_map\<close> of \<open>get_colors\<close> (mode Hierarchy), from a padded child id
  to the index of its parent. It is an association list read from the front, so that a
  later assignment to a key replaces an earlier one; its keys are the first components.
\<close>

type_synonym pmap = "(pystr \<times> nat) list"

fun add_children :: "nat \<Rightarrow> pystr list \<Rightarrow> pmap \<Rightarrow> pmap" where
  "add_children i [] m = m"
| "add_children i (child_id # rest) m = add_children i rest ((zfill (strip child_id) 4, i) # m)"

fun parent_map_from :: "nat \<Rightarrow> entity list \<Rightarrow> pmap \<Rightarrow> pmap" where
  "parent_map_from i [] m = m"
| "parent_map_from i (e # es) m = parent_map_from (Suc i) es (add_children i (child_ids e) m)"

definition parent_map :: "entity list \<Rightarrow> pmap" where
  "parent_map ents = parent_map_from 0 ents []"

definition pmap_keys :: "pmap \<Rightarrow> pystr set" where
  "pmap_keys m = fst ` set m"

text \<open>
  The \<open>while\<close> loop of \<open>get_depth\<close>: \<open>current_id\<close>, \<open>visited\<close> and \<open>depth\<close> are its
  variables. Reading \<open>self.entities[parent_idx]\<close> out of range raises IndexError.
\<close>

function get_depth_loop ::
  "pmap \<Rightarrow> entity list \<Rightarrow> pystr \<Rightarrow> pystr set \<Rightarrow> nat \<Rightarrow> py_error + nat" where
  "get_depth_loop pm ents current_id visited depth =
     (case map_of pm current_id of
        None \<Rightarrow> Inr depth
      | Some parent_idx \<Rightarrow>
          if current_id \<in> visited then Inr depth
          else if length ents \<le> parent_idx then Inl IndexError
          else get_depth_loop pm ents (zfill (strip (ent_id (ents ! parent_idx))) 4)
                 (insert current_id visited) (Suc depth))"
  by pat_completeness auto
termination
proof (relation "measure (\<lambda>(pm, ents, current_id, visited, depth). card (pmap_keys pm - visited))")
  show "wf (measure (\<lambda>(pm, ents, current_id, visited, depth). card (pmap_keys pm - visited)))"
    by simp
next
  fix pm :: pmap and ents :: "entity list" and current_id :: pystr and visited :: "pystr set"
    and depth :: nat and parent_idx :: nat
  assume look: "map_of pm current_id = Some parent_idx" and fresh: "current_id \<notin> visited"
  have key: "current_id \<in> pmap_keys pm"
    using look by (auto simp: pmap_keys_def dest: map_of_SomeD intro: rev_image_eqI)
  have fin: "finite (pmap_keys pm - visited)" by (simp add: pmap_keys_def)
  have eq: "pmap_keys pm - insert current_id visited = (pmap_keys pm - visited) - {current_id}"
    by auto
  have mem: "current_id \<in> pmap_keys pm - visited" using key fresh by simp
  have "card (pmap_keys pm - insert current_id visited) < card (pmap_keys pm - visited)"
    unfolding eq by (rule card_Diff1_less [OF fin mem])
  then show "((pm, ents, zfill (strip (ent_id (ents ! parent_idx))) 4, insert current_id visited,
               Suc depth), (pm, ents, current_id, visited, depth))
             \<in> measure (\<lambda>(pm, ents, current_id, visited, depth). card (pmap_keys pm - visited))"
    by simp
qed

definition get_depth :: "entity list \<Rightarrow> nat \<Rightarrow> py_error + nat" where
  "get_depth ents idx =
     (if length ents \<le> idx then Inl IndexError
      else get_depth_loop (parent_map ents) ents (zfill (strip (ent_id (ents ! idx))) 4) {} 0)"

definition blank_entity :: entity where
  "blank_entity = \<lparr>raw = [], p_raw_content = [], r_raw_content = [], p_indices = [],
     r_indices = [], id_tag_len = 0, pos_x = 0, pos_y = 0, pos_z = 0, rot_x = 0, rot_y = 0,
     rot_z = 0, rot_w = 1, ent_id = [], pack = [], atk = [], mov = [], esc = [], spd = [],
     pth = [], ent_scale = [], plus_type = [], plus_fly_height = [], plus_roll_speed = [],
     plus_angle = [], parent_type = [], child_ids = []\<rparr>"

definition ex_cycle :: "entity list" where
  "ex_cycle = [blank_entity\<lparr>ent_id := lit ''0001'', child_ids := [lit ''0002'']\<rparr>,
               blank_entity\<lparr>ent_id := lit ''0002'', child_ids := [lit '' 1 '']\<rparr>]"

section \<open>kata.py: rewriting an entity's raw block\<close>

text \<open>
  The coordinate keys \<open>'x'\<close>, \<open>'y'\<close>, \<open>'z'\<close> and the rotation keys \<open>'rw'\<close>, \<open>'rx'\<close>,
  \<open>'ry'\<close>, \<open>'rz'\<close> of an entity, read and written by key as \<open>ent[k]\<close>.
\<close>

datatype axis = AxX | AxY | AxZ

fun get_axis :: "axis \<Rightarrow> entity \<Rightarrow> real" where
  "get_axis AxX e = pos_x e"
| "get_axis AxY e = pos_y e"
| "get_axis AxZ e = pos_z e"

fun set_axis :: "axis \<Rightarrow> real \<Rightarrow> entity \<Rightarrow> entity" where
  "set_axis AxX v e = e\<lparr>pos_x := v\<rparr>"
| "set_axis AxY v e = e\<lparr>pos_y := v\<rparr>"
| "set_axis AxZ v e = e\<lparr>pos_z := v\<rparr>"

datatype raxis = RotW | RotX | RotY | RotZ

fun get_raxis :: "raxis \<Rightarrow> entity \<Rightarrow> real" where
  "get_raxis RotW e = rot_w e"
| "get_raxis RotX e = rot_x e"
| "get_raxis RotY e = rot_y e"
| "get_raxis RotZ e = rot_z e"

fun set_raxis :: "raxis \<Rightarrow> real \<Rightarrow> entity \<Rightarrow> entity" where
  "set_raxis RotW v e = e\<lparr>rot_w := v\<rparr>"
| "set_raxis RotX v e = e\<lparr>rot_x := v\<rparr>"
| "set_raxis RotY v e = e\<lparr>rot_y := v\<rparr>"
| "set_raxis RotZ v e = e\<lparr>rot_z := v\<rparr>"

text \<open>
  \<open>_sync_entity_raw\<close>. The loop rebuilds the content of \<open><posi>\<close> from the original
  content, the three token spans and the three coordinates (\<open>rebuild_parts\<close> is the loop
  from a given \<open>last_idx\<close> on, joined); a span list shorter than three raises IndexError
  before the entity is changed. \<open>fmt10\<close> is the f-string of \<open>format_strict\<close>.
\<close>

fun rebuild_parts :: "(real \<Rightarrow> pystr) \<Rightarrow> pystr \<Rightarrow> nat \<Rightarrow> ((nat \<times> nat) \<times> real) list \<Rightarrow> pystr" where
  "rebuild_parts fmt10 original_content last_idx [] = drop last_idx original_content"
| "rebuild_parts fmt10 original_content last_idx (((start, end), v) # rest) =
     slice original_content last_idx start @ format_strict fmt10 v (end - start)
       @ rebuild_parts fmt10 original_content end rest"

definition sync_entity_raw :: "(real \<Rightarrow> pystr) \<Rightarrow> entity \<Rightarrow> py_error + entity" where
  "sync_entity_raw fmt10 ent =
     (if length (p_indices ent) < 3 then Inl IndexError
      else
        let reconstructed =
              rebuild_parts fmt10 (p_raw_content ent) 0
                (zip (take 3 (p_indices ent)) [pos_x ent, pos_y ent, pos_z ent]);
            si = find_int (raw ent) (lit ''<posi>'') + int (length (lit ''<posi>''));
            ei = find_int (raw ent) (lit ''</posi>'');
            final_block = ljust (py_take reconstructed (ei - si)) (nat (ei - si))
        in Inr (ent\<lparr>p_raw_content := reconstructed,
                    raw := py_take (raw ent) si @ final_block @ py_drop (raw ent) ei\<rparr>))"

text \<open>\<open>safe_rep\<close>, the local function of \<open>commit_batch_changes\<close>.\<close>

definition safe_rep :: "string \<Rightarrow> pystr \<Rightarrow> pystr \<Rightarrow> pystr" where
  "safe_rep tag new_content blk =
     (let s = lit (''<'' @ tag @ ''>'');
          e = lit (''</'' @ tag @ ''>'');
          si = find_int blk s + int (length s);
          ei = find_int blk e
      in if si = - 1 \<or> ei = - 1 then blk
         else
           let orig_len = ei - si;
               final_str = ljust (py_take new_content orig_len) (nat orig_len)
           in py_take blk si @ final_str @ py_drop blk ei)"

text \<open>
  What \<open>commit_batch_changes\<close> reads from the form: the offset switch, the position and
  rotation variables (by index), the set of dirty field names, and the text of each entry
  widget (by field name).
\<close>

record batch_form =
  use_offset :: bool
  pos_vals :: "nat \<Rightarrow> real"
  rot_vals :: "nat \<Rightarrow> real"
  dirty_fields :: "string set"
  entry_val :: "string \<Rightarrow> pystr"

definition pos_key :: "nat \<Rightarrow> string" where
  "pos_key i = [''pos_0'', ''pos_1'', ''pos_2''] ! i"

definition rot_key :: "nat \<Rightarrow> string" where
  "rot_key i = [''rot_0'', ''rot_1'', ''rot_2'', ''rot_3''] ! i"

text \<open>
  The position loop of \<open>commit_batch_changes\<close> from index \<open>i\<close> on: it updates the dirty
  coordinates of the entity and returns the joined parts with the entity.
\<close>

fun commit_pos_parts ::
  "(real \<Rightarrow> pystr) \<Rightarrow> batch_form \<Rightarrow> pystr \<Rightarrow> nat \<Rightarrow> (nat \<times> axis \<times> nat \<times> nat) list \<Rightarrow> entity
     \<Rightarrow> pystr \<times> entity" where
  "commit_pos_parts fmt10 form original_content last_idx [] ent =
     (drop last_idx original_content, ent)"
| "commit_pos_parts fmt10 form original_content last_idx ((i, ax, start, end) # rest) ent =
     (let ent1 =
            (if pos_key i \<in> dirty_fields form then
               (let file_val = - pos_vals form i in
                if use_offset form then set_axis ax (get_axis ax ent + file_val) ent
                else set_axis ax file_val ent)
             else ent);
          part = format_strict fmt10 (get_axis ax ent1) (end - start);
          (tail, ent2) = commit_pos_parts fmt10 form original_content end rest ent1
      in (slice original_content last_idx start @ part @ tail, ent2))"

fun commit_rot_parts ::
  "(real \<Rightarrow> pystr) \<Rightarrow> batch_form \<Rightarrow> pystr \<Rightarrow> nat \<Rightarrow> (nat \<times> raxis \<times> nat \<times> nat) list \<Rightarrow> entity
     \<Rightarrow> pystr \<times> entity" where
  "commit_rot_parts fmt10 form original_content last_idx [] ent =
     (drop last_idx original_content, ent)"
| "commit_rot_parts fmt10 form original_content last_idx ((i, ax, start, end) # rest) ent =
     (let ent1 =
            (if rot_key i \<in> dirty_fields form then set_raxis ax (rot_vals form i) ent else ent);
          part = format_strict fmt10 (get_raxis ax ent1) (end - start);
          (tail, ent2) = commit_rot_parts fmt10 form original_content end rest ent1
      in (slice original_content last_idx start @ part @ tail, ent2))"

text \<open>The text fields, as the pairs (entity key, tag) in the order of the source.\<close>

definition text_fields :: "(string \<times> string) list" where
  "text_fields =
     [(''id'', ''index''), (''atk'', ''attack_type''), (''mov'', ''move_type''),
      (''esc'', ''escape_type''), (''spd'', ''speed''), (''pth'', ''path_id''),
      (''scale'', ''scale''), (''plus_type'', ''plus_type''),
      (''plus_fly_height'', ''plus_fly_height''), (''plus_roll_speed'', ''plus_roll_speed''),
      (''plus_angle'', ''plus_angle''), (''parent_type'', ''parent_type'')]"

definition set_text_field :: "string \<Rightarrow> pystr \<Rightarrow> entity \<Rightarrow> entity" where
  "set_text_field f v e =
     (if f = ''id'' then e\<lparr>ent_id := v\<rparr>
      else if f = ''atk'' then e\<lparr>atk := v\<rparr>
      else if f = ''mov'' then e\<lparr>mov := v\<rparr>
      else if f = ''esc'' then e\<lparr>esc := v\<rparr>
      else if f = ''spd'' then e\<lparr>spd := v\<rparr>
      else if f = ''pth'' then e\<lparr>pth := v\<rparr>
      else if f = ''scale'' then e\<lparr>ent_scale := v\<rparr>
      else if f = ''plus_type'' then e\<lparr>plus_type := v\<rparr>
      else if f = ''plus_fly_height'' then e\<lparr>plus_fly_height := v\<rparr>
      else if f = ''plus_roll_speed'' then e\<lparr>plus_roll_speed := v\<rparr>
      else if f = ''plus_angle'' then e\<lparr>plus_angle := v\<rparr>
      else if f = ''parent_type'' then e\<lparr>parent_type := v\<rparr>
      else e)"

text \<open>
  One round of the loop over the text fields: the entity and the local \<open>raw\<close> after the
  field \<open>f\<close> with tag \<open>t\<close>.
\<close>

definition commit_text_field :: "batch_form \<Rightarrow> string \<times> string \<Rightarrow> entity \<times> pystr \<Rightarrow> entity \<times> pystr" where
  "commit_text_field form ft st =
     (let (f, t) = ft; (ent, raw_local) = st in
      if f \<in> dirty_fields form then
        (let val_str = strip (entry_val form f);
             val_str = (if f = ''id'' then zfill val_str (int (id_tag_len ent) - 2) else val_str)
         in (set_text_field f val_str ent,
             safe_rep t (lit '' '' @ val_str @ lit '' '') raw_local))
      else (ent, raw_local))"

text \<open>The body of the loop of \<open>commit_batch_changes\<close> for one selected entity.\<close>

definition commit_posi :: "(real \<Rightarrow> pystr) \<Rightarrow> batch_form \<Rightarrow> entity \<times> pystr \<Rightarrow> entity \<times> pystr" where
  "commit_posi fmt10 form st =
     (let (ent, raw_local) = st in
      if (\<exists>i \<in> {0, 1, 2}. pos_key i \<in> dirty_fields form) \<and> length (p_indices ent) = 3 then
        (let (joined, ent1) =
               commit_pos_parts fmt10 form (p_raw_content ent) 0
                 (zip [0, 1, 2] (zip [AxX, AxY, AxZ] (p_indices ent))) ent;
             ent2 = ent1\<lparr>p_raw_content := joined\<rparr>
         in (ent2, safe_rep ''posi'' (p_raw_content ent2) raw_local))
      else (ent, raw_local))"

definition commit_roll :: "(real \<Rightarrow> pystr) \<Rightarrow> batch_form \<Rightarrow> entity \<times> pystr \<Rightarrow> entity \<times> pystr" where
  "commit_roll fmt10 form st =
     (let (ent, raw_local) = st in
      if (\<exists>i \<in> {0, 1, 2, 3}. rot_key i \<in> dirty_fields form) \<and> length (r_indices ent) = 4 then
        (let (joined, ent1) =
               commit_rot_parts fmt10 form (r_raw_content ent) 0
                 (zip [0, 1, 2, 3] (zip [RotW, RotX, RotY, RotZ] (r_indices ent))) ent;
             ent2 = ent1\<lparr>r_raw_content := joined\<rparr>
         in (ent2, safe_rep ''roll'' (r_raw_content ent2) raw_local))
      else (ent, raw_local))"

definition commit_entity :: "(real \<Rightarrow> pystr) \<Rightarrow> batch_form \<Rightarrow> entity \<Rightarrow> entity" where
  "commit_entity fmt10 form ent =
     (let st = commit_posi fmt10 form (ent, raw ent);
          st = commit_roll fmt10 form st;
          (ent3, raw3) = fold (commit_text_field form) text_fields st
      in ent3\<lparr>raw := raw3\<rparr>)"

text \<open>
  \<open>commit_batch_changes\<close>: the loop over the selected indices. The entities are changed
  in place, so an index out of range leaves the changes made before it.
\<close>

fun commit_loop ::
  "(real \<Rightarrow> pystr) \<Rightarrow> batch_form \<Rightarrow> nat list \<Rightarrow> entity list \<Rightarrow> py_error option \<times> entity list" where
  "commit_loop fmt10 form [] ents = (None, ents)"
| "commit_loop fmt10 form (idx # rest) ents =
     (if length ents \<le> idx then (Some IndexError, ents)
      else commit_loop fmt10 form rest (ents[idx := commit_entity fmt10 form (ents ! idx)]))"

definition commit_batch_changes ::
  "(real \<Rightarrow> pystr) \<Rightarrow> batch_form \<Rightarrow> nat list \<Rightarrow> entity list \<Rightarrow> py_error option \<times> entity list" where
  "commit_batch_changes fmt10 form selected_indices ents =
     (if selected_indices = [] then (None, ents)
      else commit_loop fmt10 form selected_indices ents)"

section \<open>kata.py: planes\<close>

text \<open>
  An entry of \<open>self.planes\<close>. \<open>is_auto\<close> is \<open>p.get("auto", False)\<close>: only the slice plane
  carries the key.
\<close>

type_synonym point = "real \<times> real \<times> real"

record plane =
  pl_name :: pystr
  coeffs :: "real \<times> real \<times> real \<times> real"
  points :: "point list"
  is_auto :: bool

datatype plane_notice = Warn_select_3_to_5 | Warn_plane_limit

fun psum :: "point list \<Rightarrow> point" where
  "psum [] = (0, 0, 0)"
| "psum ((u, v, w) # ps) = (case psum ps of (su, sv, sw) \<Rightarrow> (u + su, v + sv, w + sw))"

definition pmean :: "point list \<Rightarrow> point" where
  "pmean ps = (case psum ps of (su, sv, sw) \<Rightarrow>
     (su / real (length ps), sv / real (length ps), sw / real (length ps)))"

definition pminus :: "point \<Rightarrow> point \<Rightarrow> point" where
  "pminus p q = (case p of (u, v, w) \<Rightarrow> case q of (u', v', w') \<Rightarrow> (u - u', v - v', w - w'))"

definition pdot :: "point \<Rightarrow> point \<Rightarrow> real" where
  "pdot p q = (case p of (u, v, w) \<Rightarrow> case q of (u', v', w') \<Rightarrow> u * u' + v * v' + w * w')"

text \<open>
  \<open>create_plane_from_selection\<close>. Two things come from outside the repository and are
  parameters: \<open>svd_normal\<close>, the row \<open>vh[2, :]\<close> of numpy's \<open>linalg.svd\<close> of the centred
  points, and \<open>plane_name\<close>, the f-string that builds the name from the number of the
  plane and the third coordinate of the centroid. The result is the warning shown, if
  any, and the plane list.
\<close>

definition create_plane_from_selection ::
  "(point list \<Rightarrow> point) \<Rightarrow> (nat \<Rightarrow> real \<Rightarrow> pystr) \<Rightarrow> nat list \<Rightarrow> entity list \<Rightarrow> plane list
     \<Rightarrow> py_error + (plane_notice option \<times> plane list)" where
  "create_plane_from_selection svd_normal plane_name selected_indices ents planes =
     (if \<not> (3 \<le> length selected_indices \<and> length selected_indices \<le> 5) then
        Inr (Some Warn_select_3_to_5, planes)
      else if 5 \<le> length (filter (\<lambda>p. \<not> is_auto p) planes) then
        Inr (Some Warn_plane_limit, planes)
      else if list_ex (\<lambda>i. length ents \<le> i) selected_indices then Inl IndexError
      else
        let pts = map (\<lambda>i. (pos_x (ents ! i), pos_z (ents ! i), pos_y (ents ! i)))
                    selected_indices;
            centroid = pmean pts;
            normal = svd_normal (map (\<lambda>p. pminus p centroid) pts);
            (a, b, c) = normal;
            d = - pdot normal centroid;
            name = plane_name (length planes + 1) (snd (snd centroid))
        in Inr (None, planes @ [\<lparr>pl_name = name, coeffs = (a, b, c, d), points = pts,
                                 is_auto = False\<rparr>]))"

text \<open>
  \<open>snap_to_plane\<close>. \<open>sel_plane_idx\<close> is the selection of the plane listbox. The value an
  entity's coordinate is snapped to:
\<close>

datatype snap_notice =
    Warn_selection
  | Error_parallel axis
  | Snapped nat axis
  | Nothing_changed

definition choose_axis :: "real \<times> real \<times> real \<times> real \<Rightarrow> axis" where
  "choose_axis cf =
     (case cf of (a, b, c, d) \<Rightarrow>
        if \<bar>c\<bar> > 0.5 then AxY else if \<bar>b\<bar> > 0.5 then AxZ else if \<bar>a\<bar> > 0.5 then AxX
        else AxY)"

definition snap_val :: "axis \<Rightarrow> real \<times> real \<times> real \<times> real \<Rightarrow> entity \<Rightarrow> real" where
  "snap_val snap_axis cf ent =
     (case cf of (a, b, c, d) \<Rightarrow>
        if snap_axis = AxY then - (a * pos_x ent + b * pos_z ent + d) / c
        else if snap_axis = AxZ then - (a * pos_x ent + c * pos_y ent + d) / b
        else - (b * pos_z ent + c * pos_y ent + d) / a)"

text \<open>
  The loop over the selected entities, with its counter. The coordinate is assigned
  before \<open>_sync_entity_raw\<close> runs, so an exception there leaves the assignment behind.
\<close>

fun snap_loop ::
  "(real \<Rightarrow> pystr) \<Rightarrow> axis \<Rightarrow> real \<times> real \<times> real \<times> real \<Rightarrow> nat list \<Rightarrow> entity list \<Rightarrow> nat
     \<Rightarrow> py_error option \<times> entity list \<times> nat" where
  "snap_loop fmt10 snap_axis cf [] ents count = (None, ents, count)"
| "snap_loop fmt10 snap_axis cf (idx # rest) ents count =
     (if length ents \<le> idx then (Some IndexError, ents, count)
      else
        let ent = ents ! idx;
            val = snap_val snap_axis cf ent
        in if get_axis snap_axis ent \<noteq> val then
             (case sync_entity_raw fmt10 (set_axis snap_axis val ent) of
                Inl err \<Rightarrow> (Some err, ents[idx := set_axis snap_axis val ent], count)
              | Inr ent' \<Rightarrow> snap_loop fmt10 snap_axis cf rest (ents[idx := ent']) (count + 1))
           else snap_loop fmt10 snap_axis cf rest ents count)"

definition snap_to_plane ::
  "(real \<Rightarrow> pystr) \<Rightarrow> nat list \<Rightarrow> nat list \<Rightarrow> plane list \<Rightarrow> entity list
     \<Rightarrow> py_error + (snap_notice \<times> entity list)" where
  "snap_to_plane fmt10 sel_plane_idx selected_indices planes ents =
     (if sel_plane_idx = [] \<or> selected_indices = [] then Inr (Warn_selection, ents)
      else if length planes \<le> hd sel_plane_idx then Inl IndexError
      else
        let cf = coeffs (planes ! hd sel_plane_idx);
            snap_axis = choose_axis cf;
            denom = (case cf of (a, b, c, d) \<Rightarrow>
                       if snap_axis = AxY then c else if snap_axis = AxZ then b else a)
        in if \<bar>denom\<bar> < 1 / 1000000 then Inr (Error_parallel snap_axis, ents)
           else
             (case snap_loop fmt10 snap_axis cf selected_indices ents 0 of
                (Some err, ents', count) \<Rightarrow> Inl err
              | (None, ents', count) \<Rightarrow>
                  Inr (if 0 < count then Snapped count snap_axis else Nothing_changed, ents')))"

definition ex_posi_ent :: entity where
  "ex_posi_ent = blank_entity\<lparr>raw := lit ''<posi>1 2 3</posi>'', p_raw_content := lit ''1 2 3'',
     p_indices := [(0, 1), (2, 3), (4, 5)], pos_x := 1, pos_y := 2, pos_z := 3\<rparr>"

definition ex_plane :: plane where
  "ex_plane = \<lparr>pl_name = lit ''Plane 1'', coeffs = (0, 0, 1, - 5), points = [], is_auto = False\<rparr>"

text \<open>The values of \<open>f"{v:.10f}"\<close> on the numbers of the examples.\<close>

definition ex_fmt :: "real \<Rightarrow> pystr" where
  "ex_fmt v =
     (if v = 1 then lit ''1.0000000000'' else if v = 2 then lit ''2.0000000000''
      else if v = 3 then lit ''3.0000000000'' else if v = 5 then lit ''5.0000000000''
      else lit ''0.0000000000'')"

definition ex_three :: "entity list" where
  "ex_three = [blank_entity\<lparr>pos_x := 1\<rparr>, blank_entity\<lparr>pos_y := 1\<rparr>, blank_entity\<lparr>pos_z := 1\<rparr>]"

section \<open>kata.py: loading and saving a map file\<close>

text \<open>
  \<open>bytes.decode('utf-8', errors='ignore')\<close>: a byte that cannot start a character, and
  the bytes of a sequence that is cut short or continued wrongly, are dropped, and
  decoding resumes at the first byte that was not part of the bad sequence.
\<close>

definition is_cont :: "byte \<Rightarrow> bool" where
  "is_cont b = (0x80 \<le> b \<and> b \<le> 0xBF)"

definition second_ok3 :: "byte \<Rightarrow> byte \<Rightarrow> bool" where
  "second_ok3 b0 b1 =
     (is_cont b1 \<and> \<not> (b0 = 0xE0 \<and> b1 < 0xA0) \<and> \<not> (b0 = 0xED \<and> 0xA0 \<le> b1))"

definition second_ok4 :: "byte \<Rightarrow> byte \<Rightarrow> bool" where
  "second_ok4 b0 b1 =
     (is_cont b1 \<and> \<not> (b0 = 0xF0 \<and> b1 < 0x90) \<and> \<not> (b0 = 0xF4 \<and> 0x90 \<le> b1))"

fun utf8_decode_ignore :: "pybytes \<Rightarrow> pystr" where
  "utf8_decode_ignore [] = []"
| "utf8_decode_ignore (b0 # rest) =
     (if b0 < 0x80 then unat b0 # utf8_decode_ignore rest
      else if b0 < 0xC2 then utf8_decode_ignore rest
      else if b0 < 0xE0 then
        (case rest of
           [] \<Rightarrow> []
         | b1 # r1 \<Rightarrow>
             if is_cont b1 then
               ((unat b0 - 0xC0) * 64 + (unat b1 - 0x80)) # utf8_decode_ignore r1
             else utf8_decode_ignore rest)
      else if b0 < 0xF0 then
        (case rest of
           [] \<Rightarrow> []
         | b1 # r1 \<Rightarrow>
             if \<not> second_ok3 b0 b1 then utf8_decode_ignore rest
             else
               (case r1 of
                  [] \<Rightarrow> []
                | b2 # r2 \<Rightarrow>
                    if is_cont b2 then
                      ((unat b0 - 0xE0) * 4096 + (unat b1 - 0x80) * 64 + (unat b2 - 0x80))
                        # utf8_decode_ignore r2
                    else utf8_decode_ignore r1))
      else if b0 < 0xF5 then
        (case rest of
           [] \<Rightarrow> []
         | b1 # r1 \<Rightarrow>
             if \<not> second_ok4 b0 b1 then utf8_decode_ignore rest
             else
               (case r1 of
                  [] \<Rightarrow> []
                | b2 # r2 \<Rightarrow>
                    if \<not> is_cont b2 then utf8_decode_ignore r1
                    else
                      (case r2 of
                         [] \<Rightarrow> []
                       | b3 # r3 \<Rightarrow>
                           if is_cont b3 then
                             ((unat b0 - 0xF0) * 262144 + (unat b1 - 0x80) * 4096
                                + (unat b2 - 0x80) * 64 + (unat b3 - 0x80))
                               # utf8_decode_ignore r3
                           else utf8_decode_ignore r2)))
      else utf8_decode_ignore rest)"

text \<open>
  \<open>token_pattern.finditer(content)\<close> for the pattern
  \<open>(<entity>|</entity>|<child>|</child>)\<close>: the matches from left to right, each with its
  token, start and end. \<open>scan_tokens pos s\<close> scans \<open>s\<close>, which starts at offset \<open>pos\<close>.
\<close>

definition structural_tokens :: "pystr list" where
  "structural_tokens = [lit ''<entity>'', lit ''</entity>'', lit ''<child>'', lit ''</child>'']"

definition match_token :: "pystr \<Rightarrow> pystr option" where
  "match_token s = List.find (startswith s) structural_tokens"

function scan_tokens :: "nat \<Rightarrow> pystr \<Rightarrow> (pystr \<times> nat \<times> nat) list" where
  "scan_tokens pos [] = []"
| "scan_tokens pos (c # cs) =
     (case match_token (c # cs) of
        Some t \<Rightarrow> (t, pos, pos + length t) # scan_tokens (pos + length t) (drop (length t) (c # cs))
      | None \<Rightarrow> scan_tokens (Suc pos) cs)"
  by pat_completeness auto
termination
proof (relation "measure (\<lambda>(pos, s). length s)")
  show "wf (measure (\<lambda>(pos, s). length s))" by simp
next
  fix pos :: nat and c :: nat and cs :: pystr
  show "((Suc pos, cs), (pos, c # cs)) \<in> measure (\<lambda>(pos, s). length s)" by simp
next
  fix pos :: nat and c :: nat and cs t :: pystr
  assume "match_token (c # cs) = Some t"
  then have "t \<in> set structural_tokens"
    by (auto simp: match_token_def find_Some_iff in_set_conv_nth)
  then have "t \<noteq> []" by (auto simp: structural_tokens_def lit_def)
  then show "((pos + length t, drop (length t) (c # cs)), (pos, c # cs))
               \<in> measure (\<lambda>(pos, s). length s)"
    by (cases t) simp_all
qed

text \<open>
  An element of \<open>self.file_sequence\<close> is a string or one of the entity dictionaries of
  \<open>self.entities\<close>, the same object and not a copy: it is kept as the entity's index.
\<close>

datatype seq_item = Text pystr | EntRef nat

record load_state =
  file_sequence :: "seq_item list"
  entities :: "entity list"
  last_pos :: nat
  entity_start_pos :: "nat option"
  parent_stack :: "nat list"

definition seal_entity :: "entity \<Rightarrow> load_state \<Rightarrow> load_state" where
  "seal_entity ent st =
     st\<lparr>entities := entities st @ [ent\<lparr>child_ids := []\<rparr>],
        file_sequence := file_sequence st @ [EntRef (length (entities st))]\<rparr>"

definition append_text :: "pystr \<Rightarrow> load_state \<Rightarrow> load_state" where
  "append_text s st = st\<lparr>file_sequence := file_sequence st @ [Text s]\<rparr>"

definition link_child :: "pystr \<Rightarrow> load_state \<Rightarrow> load_state" where
  "link_child cid st =
     (if parent_stack st = [] then st
      else
        let p = last (parent_stack st) in
        st\<lparr>entities := (entities st)[p := (entities st ! p)
                \<lparr>child_ids := child_ids (entities st ! p) @ [cid]\<rparr>]\<rparr>)"

text \<open>
  One round of the loop of \<open>load_file\<close> over the matches. A ValueError of
  \<open>_parse_block\<close> ends the loop with the state reached so far.
\<close>

definition load_step ::
  "(pystr \<Rightarrow> real option) \<Rightarrow> pystr \<Rightarrow> pystr \<times> nat \<times> nat \<Rightarrow> load_state \<Rightarrow> py_error + load_state" where
  "load_step pyfloat content m st0 =
     (let (token, start, end) = m;
          st = (if entity_start_pos st0 = None \<and> last_pos st0 < start
                then append_text (slice content (last_pos st0) start) st0 else st0)
      in if token = lit ''<entity>'' then
           Inr (st\<lparr>entity_start_pos := Some start, last_pos := end\<rparr>)
         else if token = lit ''<child>'' then
           (case entity_start_pos st of
              Some esp \<Rightarrow>
                (case parse_block pyfloat (slice content esp start) of
                   Inl err \<Rightarrow> Inl err
                 | Inr ent \<Rightarrow>
                     Inr ((append_text token
                            ((seal_entity ent st)
                               \<lparr>parent_stack := parent_stack st @ [length (entities st)],
                                entity_start_pos := None\<rparr>))\<lparr>last_pos := end\<rparr>))
            | None \<Rightarrow> Inr ((append_text token st)\<lparr>last_pos := end\<rparr>))
         else if token = lit ''</entity>'' then
           (case entity_start_pos st of
              Some esp \<Rightarrow>
                (case parse_block pyfloat (slice content esp end) of
                   Inl err \<Rightarrow> Inl err
                 | Inr ent \<Rightarrow>
                     Inr ((link_child (ent_id ent) (seal_entity ent st))
                            \<lparr>entity_start_pos := None, last_pos := end\<rparr>))
            | None \<Rightarrow> Inr ((append_text token st)\<lparr>last_pos := end\<rparr>))
         else if token = lit ''</child>'' then
           Inr ((append_text token st)
                  \<lparr>parent_stack := butlast (parent_stack st), last_pos := end\<rparr>)
         else Inr (st\<lparr>last_pos := end\<rparr>))"

fun load_loop ::
  "(pystr \<Rightarrow> real option) \<Rightarrow> pystr \<Rightarrow> (pystr \<times> nat \<times> nat) list \<Rightarrow> load_state
     \<Rightarrow> py_error option \<times> load_state" where
  "load_loop pyfloat content [] st = (None, st)"
| "load_loop pyfloat content (m # ms) st =
     (case load_step pyfloat content m st of
        Inl err \<Rightarrow> (Some err, st)
      | Inr st' \<Rightarrow> load_loop pyfloat content ms st')"

text \<open>
  \<open>load_file\<close> on the bytes of the chosen file: the error raised, if any, and the
  \<open>file_sequence\<close> and \<open>entities\<close> the editor is left with.
\<close>

definition load_text :: "(pystr \<Rightarrow> real option) \<Rightarrow> pystr \<Rightarrow> py_error option \<times> load_state" where
  "load_text pyfloat content =
     (case load_loop pyfloat content (scan_tokens 0 content)
             \<lparr>file_sequence = [], entities = [], last_pos = 0, entity_start_pos = None,
              parent_stack = []\<rparr> of
        (Some err, st) \<Rightarrow> (Some err, st)
      | (None, st) \<Rightarrow>
          (None, if last_pos st < length content
                 then append_text (drop (last_pos st) content) st else st))"

definition load_file :: "(pystr \<Rightarrow> real option) \<Rightarrow> pybytes \<Rightarrow> py_error option \<times> load_state" where
  "load_file pyfloat file_bytes = load_text pyfloat (utf8_decode_ignore file_bytes)"

text \<open>\<open>save_map_file\<close>: the text joined from the sequence, and the bytes written.\<close>

definition item_text :: "entity list \<Rightarrow> seq_item \<Rightarrow> pystr" where
  "item_text ents i = (case i of Text s \<Rightarrow> s | EntRef n \<Rightarrow> raw (ents ! n))"

definition save_text :: "load_state \<Rightarrow> pystr" where
  "save_text st = concat (map (item_text (entities st)) (file_sequence st))"

definition save_map_file :: "load_state \<Rightarrow> py_error + pybytes" where
  "save_map_file st = utf8_encode (save_text st)"

section \<open>kata.py: when an edit keeps the length of a block\<close>

text \<open>
  \<open>tag_ok tag blk\<close>: the block contains the opening tag, and its first closing tag
  starts at or after the end of the first opening tag. \<open>commit_tags_ok\<close> asks this of
  every field that \<open>commit_batch_changes\<close> rewrites, on the block as it stands when the
  field is rewritten; \<open>commit_loop_ok\<close> asks it for every entity the loop visits.
\<close>

definition tag_ok :: "string \<Rightarrow> pystr \<Rightarrow> bool" where
  "tag_ok tag blk =
     (case py_find blk (lit (''<'' @ tag @ ''>'')) of
        None \<Rightarrow> False
      | Some i \<Rightarrow>
          (case py_find blk (lit (''</'' @ tag @ ''>'')) of
             None \<Rightarrow> False
           | Some j \<Rightarrow> i + length (lit (''<'' @ tag @ ''>'')) \<le> j))"

fun text_tags_ok :: "batch_form \<Rightarrow> (string \<times> string) list \<Rightarrow> entity \<times> pystr \<Rightarrow> bool" where
  "text_tags_ok form [] st = True"
| "text_tags_ok form ((f, t) # rest) st =
     ((f \<in> dirty_fields form \<longrightarrow> tag_ok t (snd st))
      \<and> text_tags_ok form rest (commit_text_field form (f, t) st))"

definition posi_edited :: "batch_form \<Rightarrow> entity \<Rightarrow> bool" where
  "posi_edited form ent =
     ((\<exists>i \<in> {0, 1, 2}. pos_key i \<in> dirty_fields form) \<and> length (p_indices ent) = 3)"

definition roll_edited :: "batch_form \<Rightarrow> entity \<Rightarrow> bool" where
  "roll_edited form ent =
     ((\<exists>i \<in> {0, 1, 2, 3}. rot_key i \<in> dirty_fields form) \<and> length (r_indices ent) = 4)"

definition commit_tags_ok :: "(real \<Rightarrow> pystr) \<Rightarrow> batch_form \<Rightarrow> entity \<Rightarrow> bool" where
  "commit_tags_ok fmt10 form ent =
     (let st0 = (ent, raw ent);
          st1 = commit_posi fmt10 form st0;
          st2 = commit_roll fmt10 form st1
      in (posi_edited form ent \<longrightarrow> tag_ok ''posi'' (snd st0))
         \<and> (roll_edited form (fst st1) \<longrightarrow> tag_ok ''roll'' (snd st1))
         \<and> text_tags_ok form text_fields st2)"

fun commit_loop_ok :: "(real \<Rightarrow> pystr) \<Rightarrow> batch_form \<Rightarrow> nat list \<Rightarrow> entity list \<Rightarrow> bool" where
  "commit_loop_ok fmt10 form [] ents = True"
| "commit_loop_ok fmt10 form (idx # rest) ents =
     (length ents \<le> idx
      \<or> (commit_tags_ok fmt10 form (ents ! idx)
         \<and> commit_loop_ok fmt10 form rest (ents[idx := commit_entity fmt10 form (ents ! idx)])))"

definition refs_in_range :: "load_state \<Rightarrow> bool" where
  "refs_in_range st =
     list_all (\<lambda>i. case i of Text s \<Rightarrow> True | EntRef n \<Rightarrow> n < length (entities st))
       (file_sequence st)"

section \<open>kata.py: nesting of the structural tokens\<close>

text \<open>
  The tokens of a file are properly nested when \<open><entity>\<close> \<dots> \<open></entity>\<close> and
  \<open><child>\<close> \<dots> \<open></child>\<close> match as brackets, a \<open><child>\<close> block stands inside an
  entity, and no \<open><entity>\<close> opens while the record of the previous one is still being
  read (an entity is being recorded from its \<open><entity>\<close> up to its first \<open><child>\<close> or
  its \<open></entity>\<close>). The stack holds the open brackets, innermost first.
\<close>

datatype frame = Recording | Sealed | ChildBlock

fun nested :: "frame list \<Rightarrow> pystr list \<Rightarrow> bool" where
  "nested stk [] = (stk = [])"
| "nested stk (t # ts) =
     (if t = lit ''<entity>'' then
        (case stk of Recording # r \<Rightarrow> False | _ \<Rightarrow> nested (Recording # stk) ts)
      else if t = lit ''<child>'' then
        (case stk of
           Recording # r \<Rightarrow> nested (ChildBlock # Sealed # r) ts
         | Sealed # r \<Rightarrow> nested (ChildBlock # Sealed # r) ts
         | _ \<Rightarrow> False)
      else if t = lit ''</child>'' then
        (case stk of ChildBlock # r \<Rightarrow> nested r ts | _ \<Rightarrow> False)
      else if t = lit ''</entity>'' then
        (case stk of Recording # r \<Rightarrow> nested r ts | Sealed # r \<Rightarrow> nested r ts | _ \<Rightarrow> False)
      else False)"

definition properly_nested :: "pystr \<Rightarrow> bool" where
  "properly_nested content = nested [] (map fst (scan_tokens 0 content))"

text \<open>
  What \<open>load_file\<close> needs of the tokens, given whether an entity is being recorded:
  neither \<open><entity>\<close> nor \<open></child>\<close> arrives during a record, and no record is open
  at the end.
\<close>

fun records_closed :: "bool \<Rightarrow> pystr list \<Rightarrow> bool" where
  "records_closed recording [] = (\<not> recording)"
| "records_closed recording (t # ts) =
     (if t = lit ''<entity>'' then \<not> recording \<and> records_closed True ts
      else if t = lit ''<child>'' \<or> t = lit ''</entity>'' then records_closed False ts
      else \<not> recording \<and> records_closed False ts)"

text \<open>The matches of a scan lie in the content, in order, each on its token.\<close>

fun matches_ok :: "pystr \<Rightarrow> nat \<Rightarrow> (pystr \<times> nat \<times> nat) list \<Rightarrow> bool" where
  "matches_ok content p [] = True"
| "matches_ok content p ((t, s, e) # ms) =
     (p \<le> s \<and> e = s + length t \<and> e \<le> length content \<and> slice content s e = t
      \<and> t \<in> set structural_tokens \<and> matches_ok content e ms)"

text \<open>
  The state of the loop of \<open>load_file\<close> agrees with the content read so far: what
  \<open>save_map_file\<close> would join is the content up to the start of the open record, or up
  to \<open>last_pos\<close> when no record is open.
\<close>

definition load_inv :: "pystr \<Rightarrow> load_state \<Rightarrow> bool" where
  "load_inv content st =
     (last_pos st \<le> length content \<and> refs_in_range st
      \<and> (case entity_start_pos st of
            None \<Rightarrow> save_text st = take (last_pos st) content
          | Some esp \<Rightarrow> esp \<le> last_pos st \<and> save_text st = take esp content))"

text \<open>
  \<open>float\<close> on the tokens of the examples: the value of a string of decimal digits. The
  examples use no other numeral.
\<close>

definition ex_float :: "pystr \<Rightarrow> real option" where
  "ex_float s =
     (if s \<noteq> [] \<and> list_all (\<lambda>c. 48 \<le> c \<and> c \<le> 57) s
      then Some (real (foldl (\<lambda>a c. 10 * a + (c - 48)) 0 s)) else None)"

definition ex_raw5 :: pystr where
  "ex_raw5 = lit ''<entity><index> 0001     </index><posi>1 2 3</posi><roll>1 0 0 0</roll><speed> 1 </speed></entity>''"

definition ex_ent5 :: entity where
  "ex_ent5 = blank_entity\<lparr>raw := ex_raw5, p_raw_content := lit ''1 2 3'',
     r_raw_content := lit ''1 0 0 0'', p_indices := [(0, 1), (2, 3), (4, 5)],
     r_indices := [(0, 1), (2, 3), (4, 5), (6, 7)], id_tag_len := 10,
     pos_x := 1, pos_y := 2, pos_z := 3, rot_x := 0, rot_y := 0, rot_z := 0, rot_w := 1,
     ent_id := lit ''0001'', spd := lit ''1'', pth := lit ''0'', ent_scale := lit ''0'',
     plus_type := lit ''0'', plus_fly_height := lit ''0'', plus_roll_speed := lit ''0'',
     plus_angle := lit ''0'', parent_type := lit ''0''\<rparr>"

definition ex_form_bad :: batch_form where
  "ex_form_bad = \<lparr>use_offset = False, pos_vals = (\<lambda>i. 0), rot_vals = (\<lambda>i. 0),
     dirty_fields = {''id'', ''spd''},
     entry_val = (\<lambda>f. if f = ''id'' then lit ''</speed>'' else lit ''1'')\<rparr>"

definition ex_form_ok :: batch_form where
  "ex_form_ok = \<lparr>use_offset = False, pos_vals = (\<lambda>i. - 5), rot_vals = (\<lambda>i. 0),
     dirty_fields = {''pos_0'', ''spd''}, entry_val = (\<lambda>f. lit ''2'')\<rparr>"

definition ex_ent_small :: entity where
  "ex_ent_small = blank_entity\<lparr>raw := lit ''<posi>1 2 3</posi><speed> 1 </speed>'',
     p_raw_content := lit ''1 2 3'', p_indices := [(0, 1), (2, 3), (4, 5)],
     pos_x := 1, pos_y := 2, pos_z := 3, spd := lit ''1''\<rparr>"

definition ex_state :: load_state where
  "ex_state = \<lparr>file_sequence = [Text (lit ''a''), EntRef 0], entities = [ex_ent_small],
     last_pos = 0, entity_start_pos = None, parent_stack = []\<rparr>"

subsection \<open>Example map files\<close>

text \<open>
  \<open>ex_latin1\<close> is a comment whose \<open>e\<close> with acute accent is the single Latin-1 byte
  \<open>0xE9\<close>, which is not UTF-8. \<open>ex_map\<close> is a parent entity with one child.
\<close>

definition ex_latin1 :: pybytes where
  "ex_latin1 = blit ''<!-- caf'' @ [0xE9] @ blit '' -->''"

definition ex_map :: pybytes where
  "ex_map = blit ''a<entity>H<child><entity><posi>1 2 3</posi></entity></child></entity>z''"

section \<open>d04Injector.py: rebuilding the text of an SMiData block\<close>

text \<open>
  An entry of \<open>self.smidata_entries\<close>: its key, the original value (\<open>"orig"\<close>) and the
  text now in its widget. The dictionary is read in insertion order, so it is a list.
\<close>

record smidata_entry =
  se_key :: pystr
  se_orig :: pystr
  se_widget :: pystr

text \<open>The new value, padded with spaces or cut to the length of the original one.\<close>

definition fit_value :: "pystr \<Rightarrow> pystr \<Rightarrow> pystr" where
  "fit_value new_val orig_val =
     (if length new_val \<noteq> length orig_val then
        (if length new_val < length orig_val
         then new_val @ replicate (length orig_val - length new_val) 32
         else take (length orig_val) new_val)
      else new_val)"

text \<open>
  \<open>re.sub(f'({key}\\s*=\\s*").*?(")', lambda m: m.group(1) + nv + m.group(2), text,
  count=1)\<close> for a key of word characters. \<open>match_here k s\<close> matches the pattern at the
  start of \<open>s\<close>: the key, whitespace, \<open>=\<close>, whitespace, a quote, then lazily the
  characters up to the next quote, none of them a newline; it returns group 1, the value
  and the rest from the closing quote on. \<open>re_sub_key\<close> replaces the value of the
  leftmost match and leaves a text without a match as it is.
\<close>

definition match_here :: "pystr \<Rightarrow> pystr \<Rightarrow> (pystr \<times> pystr \<times> pystr) option" where
  "match_here k s =
     (if startswith s k then
        (let r1 = dropWhile py_isspace (drop (length k) s) in
         case r1 of
           [] \<Rightarrow> None
         | c1 # r2 \<Rightarrow>
             if c1 \<noteq> 61 then None
             else
               (let r3 = dropWhile py_isspace r2 in
                case r3 of
                  [] \<Rightarrow> None
                | c2 # r4 \<Rightarrow>
                    if c2 \<noteq> 34 then None
                    else
                      (let v = takeWhile (\<lambda>c. c \<noteq> 34 \<and> c \<noteq> 10) r4;
                           r5 = drop (length v) r4
                       in case r5 of
                            [] \<Rightarrow> None
                          | c3 # r6 \<Rightarrow>
                              if c3 = 34 then Some (take (length s - length r4) s, v, r5)
                              else None)))
      else None)"

fun re_sub_key :: "pystr \<Rightarrow> pystr \<Rightarrow> pystr \<Rightarrow> pystr" where
  "re_sub_key k new_val [] = []"
| "re_sub_key k new_val (c # cs) =
     (case match_here k (c # cs) of
        Some (g1, v, rest) \<Rightarrow> g1 @ new_val @ rest
      | None \<Rightarrow> c # re_sub_key k new_val cs)"

text \<open>\<open>build_smidata_text\<close>: one substitution for every entry, in order.\<close>

definition build_smidata_text :: "smidata_entry list \<Rightarrow> pystr \<Rightarrow> pystr" where
  "build_smidata_text smidata_entries block_text =
     fold (\<lambda>entry_info new_text.
             re_sub_key (se_key entry_info)
               (fit_value (se_widget entry_info) (se_orig entry_info)) new_text)
       smidata_entries block_text"

text \<open>
  The value that the substitution for a key replaces, if any, and the condition that
  every substitution of a build replaces a value of the length of its entry's original.
\<close>

fun first_value :: "pystr \<Rightarrow> pystr \<Rightarrow> pystr option" where
  "first_value k [] = None"
| "first_value k (c # cs) =
     (case match_here k (c # cs) of
        Some (g1, v, rest) \<Rightarrow> Some v
      | None \<Rightarrow> first_value k cs)"

fun values_fit :: "smidata_entry list \<Rightarrow> pystr \<Rightarrow> bool" where
  "values_fit [] tx = True"
| "values_fit (e # es) tx =
     ((case first_value (se_key e) tx of
         None \<Rightarrow> True
       | Some v \<Rightarrow> length v = length (se_orig e))
      \<and> values_fit es (re_sub_key (se_key e) (fit_value (se_widget e) (se_orig e)) tx))"

definition ex_smi_text :: pystr where
  "ex_smi_text = lit ''<SMiData xa=\"12345\" a=\"1\"/>''"

definition ex_smi_entries :: "smidata_entry list" where
  "ex_smi_entries =
     [\<lparr>se_key = lit ''xa'', se_orig = lit ''12345'', se_widget = lit ''12345''\<rparr>,
      \<lparr>se_key = lit ''a'', se_orig = lit ''1'', se_widget = lit ''1''\<rparr>]"

section \<open>Properties of the injector\<close>

lemma length_ljust: "length (ljust s w) = max (length s) w"
  by (simp add: ljust_def)

lemma length_rjust: "length (rjust s w) = max (length s) w"
  by (simp add: rjust_def)

lemma replicate_num: "replicate (numeral n) c = c # replicate (pred_numeral n) c"
  by (simp only: numeral_eq_Suc replicate_Suc)

lemma write_at_inside:
  "pos + length bs \<le> length f \<Longrightarrow> write_at f pos bs = take pos f @ bs @ drop (pos + length bs) f"
  by (cases "bs = []") (simp_all add: write_at_def)

lemma length_write_at_inside:
  "pos + length bs \<le> length f \<Longrightarrow> length (write_at f pos bs) = length f"
  by (simp add: write_at_inside)

lemma take_write_at_inside:
  "pos + length bs \<le> length f \<Longrightarrow> take pos (write_at f pos bs) = take pos f"
  by (simp add: write_at_inside)

lemma drop_write_at_inside:
  "pos + length bs \<le> length f \<Longrightarrow> drop (pos + length bs) (write_at f pos bs) = drop (pos + length bs) f"
  by (simp add: write_at_inside)


lemma py_rfind_bound: "py_rfind xs sub = Some i \<Longrightarrow> i \<le> length xs"
  by (induction xs arbitrary: i) (auto split: option.splits if_splits)

lemma length_pad_level:
  "length c \<le> n \<Longrightarrow> length (pad_level m c n) = n"
  by (auto simp: pad_level_def Let_def dest: py_rfind_bound split: option.splits)

lemma utf8_encode_append:
  "utf8_encode (a @ b) =
     (case utf8_encode a of Inl e \<Rightarrow> Inl e
      | Inr x \<Rightarrow> (case utf8_encode b of Inl e \<Rightarrow> Inl e | Inr y \<Rightarrow> Inr (x @ y)))"
  by (induction a) (auto split: sum.splits)

lemma utf8_encode_spaces: "utf8_encode (replicate n 32) = Inr (replicate n 32)"
  by (induction n) (auto simp: utf8_char_def)

lemma utf8_encode_split:
  assumes "utf8_encode t = Inr bs"
  shows "\<exists>x y. utf8_encode (take k t) = Inr x \<and> utf8_encode (drop k t) = Inr y \<and> bs = x @ y"
proof -
  have "utf8_encode (take k t @ drop k t) = Inr bs" using assms by simp
  then show ?thesis
    unfolding utf8_encode_append by (auto split: sum.splits)
qed






lemma same_outside_write_at:
  "pos + length bs \<le> length f \<Longrightarrow> same_outside f (write_at f pos bs) pos (length bs)"
  by (simp add: same_outside_def write_at_inside)

lemma same_outside_nth:
  assumes "same_outside dat dat' start n" and "i < start \<or> start + n \<le> i"
    and inb: "i < length dat"
  shows "dat' ! i = dat ! i"
proof (cases "i < start")
  case True
  have "dat' ! i = take start dat' ! i" using True by simp
  also have "\<dots> = take start dat ! i" using assms(1) by (simp add: same_outside_def)
  also have "\<dots> = dat ! i" using True by simp
  finally show ?thesis .
next
  case False
  with assms(2) have le: "start + n \<le> i" by simp
  have len: "length dat' = length dat" using assms(1) by (simp add: same_outside_def)
  have "dat' ! i = dat' ! (start + n + (i - (start + n)))" using le by simp
  also have "\<dots> = drop (start + n) dat' ! (i - (start + n))"
    using le inb len by (subst nth_drop) simp_all
  also have "\<dots> = drop (start + n) dat ! (i - (start + n))"
    using assms(1) by (simp add: same_outside_def)
  also have "\<dots> = dat ! (start + n + (i - (start + n)))"
    using le inb by (subst nth_drop) simp_all
  also have "\<dots> = dat ! i" using le by simp
  finally show ?thesis .
qed


lemma pad_level_shape:
  "length c \<le> n \<Longrightarrow>
     \<exists>i\<le>length c. pad_level m c n = take i c @ replicate (n - length c) 32 @ drop i c"
  by (auto simp: pad_level_def Let_def split: option.splits dest: py_rfind_bound)

lemma enc1: "utf8_encode (lit ''<a=\"123\"/>'') = Inr (blit ''<a=\"123\"/>'')"
  by (simp add: lit_def blit_def utf8_char_def)

lemma enc2: "utf8_encode (lit ''<a=\"\"/>'') = Inr (blit ''<a=\"\"/>'')"
  by (simp add: lit_def blit_def utf8_char_def)





section \<open>Properties of the hierarchy depth\<close>

lemma add_children_range:
  "\<forall>p \<in> set m. snd p < n \<Longrightarrow> i < n \<Longrightarrow> \<forall>p \<in> set (add_children i cs m). snd p < n"
proof (induction cs arbitrary: m)
  case Nil
  then show ?case by simp
next
  case (Cons c cs)
  have "\<forall>p \<in> set ((zfill (strip c) 4, i) # m). snd p < n" using Cons.prems by simp
  from Cons.IH [OF this Cons.prems(2)] show ?case by simp
qed

lemma parent_map_from_range:
  "\<forall>p \<in> set m. snd p < i + length es \<Longrightarrow>
     \<forall>p \<in> set (parent_map_from i es m). snd p < i + length es"
proof (induction es arbitrary: i m)
  case Nil
  then show ?case by simp
next
  case (Cons e es)
  have "\<forall>p \<in> set (add_children i (child_ids e) m). snd p < Suc i + length es"
    using Cons.prems by (intro add_children_range) auto
  from Cons.IH [OF this] show ?case by simp
qed

lemma parent_map_range: "map_of (parent_map ents) k = Some v \<Longrightarrow> v < length ents"
  using parent_map_from_range [of "[]" 0 ents] by (auto simp: parent_map_def dest!: map_of_SomeD)

lemma get_depth_loop_bound:
  assumes "\<And>k v. map_of pm k = Some v \<Longrightarrow> v < length ents"
  shows "\<exists>d. get_depth_loop pm ents cur visited depth = Inr d
             \<and> d \<le> depth + card (pmap_keys pm - visited)"
  using assms
proof (induction pm ents cur visited depth rule: get_depth_loop.induct)
  case (1 pm ents cur visited depth)
  show ?case
  proof (cases "map_of pm cur")
    case None
    then show ?thesis by (subst get_depth_loop.simps) simp
  next
    case (Some parent_idx)
    show ?thesis
    proof (cases "cur \<in> visited")
      case True
      then show ?thesis using Some by (subst get_depth_loop.simps) simp
    next
      case False
      have inb: "\<not> length ents \<le> parent_idx" using "1.prems" [OF Some] by simp
      let ?next = "zfill (strip (ent_id (ents ! parent_idx))) 4"
      have "\<exists>d. get_depth_loop pm ents ?next (insert cur visited) (Suc depth) = Inr d
                \<and> d \<le> Suc depth + card (pmap_keys pm - insert cur visited)"
        by (rule "1.IH" [OF Some False inb]) (rule "1.prems")
      then obtain d where
        d: "get_depth_loop pm ents ?next (insert cur visited) (Suc depth) = Inr d"
        and le: "d \<le> Suc depth + card (pmap_keys pm - insert cur visited)" by blast
      have key: "cur \<in> pmap_keys pm"
        using Some by (auto simp: pmap_keys_def dest: map_of_SomeD intro: rev_image_eqI)
      have fin: "finite (pmap_keys pm - visited)" by (simp add: pmap_keys_def)
      have eq: "pmap_keys pm - insert cur visited = (pmap_keys pm - visited) - {cur}" by auto
      have mem: "cur \<in> pmap_keys pm - visited" using key False by simp
      have "card (pmap_keys pm - insert cur visited) < card (pmap_keys pm - visited)"
        unfolding eq by (rule card_Diff1_less [OF fin mem])
      with le have "d \<le> depth + card (pmap_keys pm - visited)" by simp
      moreover have "get_depth_loop pm ents cur visited depth = Inr d"
        using Some False inb d by (subst get_depth_loop.simps) simp
      ultimately show ?thesis by blast
    qed
  qed
qed

lemma ex_cycle_map: "parent_map ex_cycle = [(lit ''0001'', 1), (lit ''0002'', 0)]"
  by (simp add: parent_map_def ex_cycle_def blank_entity_def strip_def zfill_def lit_def
      py_isspace_def replicate_num)

lemma ex_cycle_depth: "get_depth ex_cycle 0 = Inr 2"
  unfolding get_depth_def ex_cycle_map
  by (simp add: ex_cycle_def blank_entity_def strip_def zfill_def lit_def py_isspace_def)

section \<open>Properties of the plane tools\<close>

lemma sync_keeps_axis:
  "sync_entity_raw fmt10 e = Inr e' \<Longrightarrow> get_axis ax e' = get_axis ax e"
  by (cases ax) (auto simp: sync_entity_raw_def Let_def split: if_splits)

lemma get_set_axis: "get_axis ax (set_axis ax' v e) = (if ax = ax' then v else get_axis ax e)"
  by (cases ax; cases ax') simp_all

lemma snap_val_cong:
  "(\<And>ax. ax \<noteq> sa \<Longrightarrow> get_axis ax e' = get_axis ax e) \<Longrightarrow> snap_val sa cf e' = snap_val sa cf e"
proof -
  assume h: "\<And>ax. ax \<noteq> sa \<Longrightarrow> get_axis ax e' = get_axis ax e"
  show ?thesis
  proof (cases sa)
    case AxX
    with h [of AxY] h [of AxZ] show ?thesis by (simp add: snap_val_def split: prod.splits)
  next
    case AxY
    with h [of AxX] h [of AxZ] show ?thesis by (simp add: snap_val_def split: prod.splits)
  next
    case AxZ
    with h [of AxX] h [of AxY] show ?thesis by (simp add: snap_val_def split: prod.splits)
  qed
qed

lemma snap_loop_inv:
  "snap_loop fmt10 sa cf sel ents count = (None, ents', n) \<Longrightarrow>
     length ents' = length ents
     \<and> (\<forall>i < length ents. \<forall>ax. ax \<noteq> sa \<longrightarrow> get_axis ax (ents' ! i) = get_axis ax (ents ! i))
     \<and> (\<forall>i \<in> set sel. i < length ents \<and> get_axis sa (ents' ! i) = snap_val sa cf (ents ! i))
     \<and> (\<forall>i < length ents. i \<notin> set sel \<longrightarrow> ents' ! i = ents ! i)"
proof (induction sel arbitrary: ents count)
  case Nil
  then show ?case by simp
next
  case (Cons idx rest)
  from Cons.prems have inb: "idx < length ents" by (auto split: if_splits)
  define ent where "ent = ents ! idx"
  define val where "val = snap_val sa cf ent"
  obtain ents1 count1 where
    step: "snap_loop fmt10 sa cf rest ents1 count1 = (None, ents', n)"
    and len1: "length ents1 = length ents"
    and oth1: "\<forall>i < length ents. \<forall>ax. ax \<noteq> sa \<longrightarrow> get_axis ax (ents1 ! i) = get_axis ax (ents ! i)"
    and at1: "get_axis sa (ents1 ! idx) = val"
    and out1: "\<forall>i < length ents. i \<noteq> idx \<longrightarrow> ents1 ! i = ents ! i"
  proof (cases "get_axis sa ent \<noteq> val")
    case True
    with Cons.prems inb obtain ent' where
      sy: "sync_entity_raw fmt10 (set_axis sa val ent) = Inr ent'"
      and st: "snap_loop fmt10 sa cf rest (ents[idx := ent']) (count + 1) = (None, ents', n)"
      by (auto simp: Let_def ent_def val_def split: sum.splits if_splits)
    have g: "get_axis ax ent' = (if ax = sa then val else get_axis ax ent)" for ax
      using sync_keeps_axis [OF sy, of ax] by (simp add: get_set_axis)
    show ?thesis
    proof (rule that [OF st])
      show "length (ents[idx := ent']) = length ents" by simp
      show "\<forall>i < length ents. \<forall>ax. ax \<noteq> sa \<longrightarrow>
              get_axis ax (ents[idx := ent'] ! i) = get_axis ax (ents ! i)"
      proof (intro allI impI)
        fix i ax assume "i < length ents" "ax \<noteq> sa"
        then show "get_axis ax (ents[idx := ent'] ! i) = get_axis ax (ents ! i)"
          using g [of ax] by (cases "i = idx") (simp_all add: ent_def)
      qed
      show "get_axis sa (ents[idx := ent'] ! idx) = val" using g inb by simp
      show "\<forall>i < length ents. i \<noteq> idx \<longrightarrow> ents[idx := ent'] ! i = ents ! i" by simp
    qed
  next
    case False
    with Cons.prems inb have
      st: "snap_loop fmt10 sa cf rest ents count = (None, ents', n)"
      by (auto simp: Let_def ent_def val_def split: sum.splits if_splits)
    show ?thesis
      by (rule that [OF st]) (use False in \<open>simp_all add: ent_def\<close>)
  qed
  from Cons.IH [OF step] have
    len: "length ents' = length ents1"
    and oth: "\<forall>i < length ents1. \<forall>ax. ax \<noteq> sa \<longrightarrow> get_axis ax (ents' ! i) = get_axis ax (ents1 ! i)"
    and at: "\<forall>i \<in> set rest. i < length ents1 \<and> get_axis sa (ents' ! i) = snap_val sa cf (ents1 ! i)"
    and out: "\<forall>i < length ents1. i \<notin> set rest \<longrightarrow> ents' ! i = ents1 ! i"
    by auto
  have sv: "snap_val sa cf (ents1 ! i) = snap_val sa cf (ents ! i)" if "i < length ents" for i
    using oth1 that by (intro snap_val_cong) simp
  have a: "length ents' = length ents" using len len1 by simp
  have b: "\<forall>i < length ents. \<forall>ax. ax \<noteq> sa \<longrightarrow> get_axis ax (ents' ! i) = get_axis ax (ents ! i)"
    using oth oth1 len1 by simp
  have c: "i < length ents \<and> get_axis sa (ents' ! i) = snap_val sa cf (ents ! i)"
    if "i \<in> set (idx # rest)" for i
  proof (cases "i \<in> set rest")
    case True
    with at have "i < length ents1" "get_axis sa (ents' ! i) = snap_val sa cf (ents1 ! i)" by auto
    then show ?thesis using sv len1 by simp
  next
    case False
    with that have i: "i = idx" by simp
    have "ents' ! idx = ents1 ! idx" using out False inb len1 i by simp
    then show ?thesis using at1 inb i by (simp add: val_def ent_def)
  qed
  have d: "\<forall>i < length ents. i \<notin> set (idx # rest) \<longrightarrow> ents' ! i = ents ! i"
    using out out1 len1 by simp
  from a b c d show ?case by blast
qed

lemma ex_snap_run:
  "snap_to_plane ex_fmt [0] [0] [ex_plane] [ex_posi_ent]
     = Inr (Snapped 1 AxY,
            [ex_posi_ent\<lparr>raw := lit ''<posi>1 5 3</posi>'', p_raw_content := lit ''1 5 3'',
               pos_y := 5\<rparr>])"
  by (simp add: snap_to_plane_def ex_plane_def ex_posi_ent_def blank_entity_def choose_axis_def
      snap_val_def sync_entity_raw_def format_strict_def ex_fmt_def find_int_def
      startswith_def py_take_def py_drop_def ljust_def slice_def endswith_def lit_def Let_def)

section \<open>Properties of the edits\<close>

lemma startswith_length: "startswith xs sub \<Longrightarrow> length sub \<le> length xs"
proof -
  assume "startswith xs sub"
  then have "length (take (length sub) xs) = length sub" by (simp add: startswith_def)
  then show ?thesis by simp
qed

lemma py_find_bound: "py_find xs sub = Some i \<Longrightarrow> i + length sub \<le> length xs"
proof (induction xs arbitrary: i)
  case Nil
  then show ?case by (simp split: if_splits)
next
  case (Cons x xs)
  show ?case
  proof (cases "startswith (x # xs) sub")
    case True
    then have "length sub \<le> length (x # xs)"
      by (rule startswith_length)
    with True Cons.prems show ?thesis by simp
  next
    case False
    with Cons.prems obtain k where "py_find xs sub = Some k" "i = Suc k" by auto
    with Cons.IH show ?thesis by simp
  qed
qed

lemma splice_len:
  assumes "i + ls \<le> j" and "j \<le> length blk"
  shows "length (py_take blk (int i + int ls)
                 @ ljust (py_take c (int j - (int i + int ls))) (nat (int j - (int i + int ls)))
                 @ py_drop blk (int j)) = length blk"
proof -
  have n: "nat (int j - (int i + int ls)) = j - (i + ls)" "nat (int i + int ls) = i + ls"
    using assms by linarith+
  have p: "0 \<le> int j - (int i + int ls)" "0 \<le> int i + int ls" "0 \<le> int j"
    using assms by linarith+
  show ?thesis using assms by (simp add: py_take_def py_drop_def p n length_ljust)
qed

lemma length_safe_rep: "tag_ok tag blk \<Longrightarrow> length (safe_rep tag c blk) = length blk"
proof -
  assume ok: "tag_ok tag blk"
  define s where "s = lit (''<'' @ tag @ ''>'')"
  define e where "e = lit (''</'' @ tag @ ''>'')"
  from ok have "case py_find blk s of None \<Rightarrow> False
     | Some i \<Rightarrow> (case py_find blk e of None \<Rightarrow> False | Some j \<Rightarrow> i + length s \<le> j)"
    unfolding tag_ok_def s_def e_def .
  then obtain i j where i: "py_find blk s = Some i" and j: "py_find blk e = Some j"
    and le: "i + length s \<le> j"
    by (auto split: option.splits)
  from py_find_bound [OF j] have jb: "j \<le> length blk" by simp
  have "safe_rep tag c blk =
     (if find_int blk s + int (length s) = - 1 \<or> find_int blk e = - 1 then blk
      else py_take blk (find_int blk s + int (length s))
           @ ljust (py_take c (find_int blk e - (find_int blk s + int (length s))))
               (nat (find_int blk e - (find_int blk s + int (length s))))
           @ py_drop blk (find_int blk e))"
    unfolding safe_rep_def s_def e_def Let_def ..
  also have "\<dots> = py_take blk (int i + int (length s))
           @ ljust (py_take c (int j - (int i + int (length s))))
               (nat (int j - (int i + int (length s))))
           @ py_drop blk (int j)"
    by (simp add: find_int_def i j)
  finally show ?thesis by (simp only: splice_len [OF le jb])
qed

lemma length_sync_entity_raw:
  assumes ok: "tag_ok ''posi'' (raw ent)" and run: "sync_entity_raw fmt10 ent = Inr ent'"
  shows "length (raw ent') = length (raw ent)"
proof -
  define s where "s = lit ''<posi>''"
  define e where "e = lit ''</posi>''"
  have eqs: "lit (''<'' @ ''posi'' @ ''>'') = s" "lit (''</'' @ ''posi'' @ ''>'') = e"
    by (simp_all add: s_def e_def)
  from ok have "case py_find (raw ent) s of None \<Rightarrow> False
     | Some i \<Rightarrow> (case py_find (raw ent) e of None \<Rightarrow> False | Some j \<Rightarrow> i + length s \<le> j)"
    unfolding tag_ok_def eqs .
  then obtain i j where i: "py_find (raw ent) s = Some i" and j: "py_find (raw ent) e = Some j"
    and le: "i + length s \<le> j"
    by (auto split: option.splits)
  from py_find_bound [OF j] have jb: "j \<le> length (raw ent)" by simp
  define rc where "rc = rebuild_parts fmt10 (p_raw_content ent) 0
                (zip (take 3 (p_indices ent)) [pos_x ent, pos_y ent, pos_z ent])"
  have long: "\<not> length (p_indices ent) < 3"
    using run unfolding sync_entity_raw_def by (cases "length (p_indices ent) < 3") simp_all
  have "sync_entity_raw fmt10 ent = Inr (ent\<lparr>p_raw_content := rc,
       raw := py_take (raw ent) (find_int (raw ent) s + int (length s))
       @ ljust (py_take rc (find_int (raw ent) e - (find_int (raw ent) s + int (length s))))
           (nat (find_int (raw ent) e - (find_int (raw ent) s + int (length s))))
       @ py_drop (raw ent) (find_int (raw ent) e)\<rparr>)"
    unfolding sync_entity_raw_def s_def e_def rc_def Let_def if_not_P [OF long] ..
  with run have "raw ent' =
       py_take (raw ent) (find_int (raw ent) s + int (length s))
       @ ljust (py_take rc (find_int (raw ent) e - (find_int (raw ent) s + int (length s))))
           (nat (find_int (raw ent) e - (find_int (raw ent) s + int (length s))))
       @ py_drop (raw ent) (find_int (raw ent) e)"
    by auto
  then have "raw ent' = py_take (raw ent) (int i + int (length s))
           @ ljust (py_take rc (int j - (int i + int (length s))))
               (nat (int j - (int i + int (length s))))
           @ py_drop (raw ent) (int j)"
    by (simp add: find_int_def i j)
  then show ?thesis by (simp only: splice_len [OF le jb])
qed


lemma length_commit_posi:
  assumes "posi_edited form ent \<longrightarrow> tag_ok ''posi'' r"
  shows "length (snd (commit_posi fmt10 form (ent, r))) = length r"
proof (cases "posi_edited form ent")
  case True
  with assms have "tag_ok ''posi'' r" by simp
  then show ?thesis
    using True unfolding commit_posi_def posi_edited_def
    by (simp add: Let_def length_safe_rep split: prod.splits)
next
  case False
  then show ?thesis unfolding commit_posi_def posi_edited_def by auto
qed

lemma length_commit_roll:
  assumes "roll_edited form ent \<longrightarrow> tag_ok ''roll'' r"
  shows "length (snd (commit_roll fmt10 form (ent, r))) = length r"
proof (cases "roll_edited form ent")
  case True
  with assms have "tag_ok ''roll'' r" by simp
  then show ?thesis
    using True unfolding commit_roll_def roll_edited_def
    by (simp add: Let_def length_safe_rep split: prod.splits)
next
  case False
  then show ?thesis unfolding commit_roll_def roll_edited_def by auto
qed

lemma length_commit_text_field:
  "(f \<in> dirty_fields form \<longrightarrow> tag_ok t (snd st)) \<Longrightarrow>
     length (snd (commit_text_field form (f, t) st)) = length (snd st)"
  by (cases st) (simp add: commit_text_field_def Let_def length_safe_rep)

lemma length_fold_text:
  "text_tags_ok form fs st \<Longrightarrow>
     length (snd (fold (commit_text_field form) fs st)) = length (snd st)"
proof (induction fs arbitrary: st)
  case Nil
  then show ?case by simp
next
  case (Cons ft fs)
  obtain f t where ft: "ft = (f, t)" by (cases ft)
  from Cons.prems have a: "f \<in> dirty_fields form \<longrightarrow> tag_ok t (snd st)"
    and b: "text_tags_ok form fs (commit_text_field form (f, t) st)"
    by (simp_all add: ft)
  from Cons.IH [OF b] length_commit_text_field [OF a] show ?case by (simp add: ft)
qed

lemma length_commit_entity:
  assumes "commit_tags_ok fmt10 form ent"
  shows "length (raw (commit_entity fmt10 form ent)) = length (raw ent)"
proof -
  define st1 where "st1 = commit_posi fmt10 form (ent, raw ent)"
  define st2 where "st2 = commit_roll fmt10 form st1"
  define st3 where "st3 = fold (commit_text_field form) text_fields st2"
  from assms have a: "posi_edited form ent \<longrightarrow> tag_ok ''posi'' (raw ent)"
    and b: "roll_edited form (fst st1) \<longrightarrow> tag_ok ''roll'' (snd st1)"
    and c: "text_tags_ok form text_fields st2"
    by (simp_all add: commit_tags_ok_def Let_def st1_def st2_def)
  have l1: "length (snd st1) = length (raw ent)"
    unfolding st1_def by (rule length_commit_posi [OF a])
  have l2: "length (snd st2) = length (snd st1)"
    using length_commit_roll [of form "fst st1" "snd st1" fmt10] b by (simp add: st2_def)
  have l3: "length (snd st3) = length (snd st2)"
    unfolding st3_def by (rule length_fold_text [OF c])
  have "raw (commit_entity fmt10 form ent) = snd st3"
    by (simp add: commit_entity_def Let_def st1_def st2_def st3_def split: prod.splits)
  with l1 l2 l3 show ?thesis by simp
qed

lemma commit_loop_lengths:
  "commit_loop_ok fmt10 form sel ents \<Longrightarrow>
     map (\<lambda>e. length (raw e)) (snd (commit_loop fmt10 form sel ents))
       = map (\<lambda>e. length (raw e)) ents"
proof (induction sel arbitrary: ents)
  case Nil
  then show ?case by simp
next
  case (Cons idx rest)
  show ?case
  proof (cases "length ents \<le> idx")
    case True
    then show ?thesis by simp
  next
    case False
    with Cons.prems have ok: "commit_tags_ok fmt10 form (ents ! idx)"
      and rest: "commit_loop_ok fmt10 form rest (ents[idx := commit_entity fmt10 form (ents ! idx)])"
      by simp_all
    have "map (\<lambda>e. length (raw e)) (ents[idx := commit_entity fmt10 form (ents ! idx)])
            = map (\<lambda>e. length (raw e)) ents"
      using False length_commit_entity [OF ok] by (simp add: map_update list_update_same_conv)
    with Cons.IH [OF rest] False show ?thesis by simp
  qed
qed

lemma save_text_length_cong:
  assumes "map (\<lambda>e. length (raw e)) ents' = map (\<lambda>e. length (raw e)) (entities st)"
    and "refs_in_range st"
  shows "length (save_text (st\<lparr>entities := ents'\<rparr>)) = length (save_text st)"
proof -
  have len: "length ents' = length (entities st)" using assms(1) by (rule map_eq_imp_length_eq)
  have nth: "length (raw (ents' ! n)) = length (raw (entities st ! n))" if "n < length (entities st)" for n
    using assms(1) that len by (metis nth_map)
  have "length (item_text ents' i) = length (item_text (entities st) i)"
    if "i \<in> set (file_sequence st)" for i
  proof (cases i)
    case (Text t)
    then show ?thesis by (simp add: item_text_def)
  next
    case (EntRef n)
    with that assms(2) have "n < length (entities st)"
      by (auto simp: refs_in_range_def list_all_iff)
    from nth [OF this] EntRef show ?thesis by (simp add: item_text_def)
  qed
  then have "map (\<lambda>i. length (item_text ents' i)) (file_sequence st)
               = map (\<lambda>i. length (item_text (entities st) i)) (file_sequence st)"
    by simp
  then have "sum_list (map (\<lambda>i. length (item_text ents' i)) (file_sequence st))
               = sum_list (map (\<lambda>i. length (item_text (entities st) i)) (file_sequence st))"
    by (rule arg_cong)
  then show ?thesis by (simp add: save_text_def length_concat comp_def)
qed

lemma ex_parse5: "parse_block ex_float ex_raw5 = Inr ex_ent5"
  by (simp add: parse_block_def get_t_def re_tag_def parse_numbers_def token_spans_def
      ex_float_def ex_raw5_def ex_ent5_def blank_entity_def strip_def py_isspace_def
      startswith_def slice_def lit_def Let_def)


lemmas ex_eval = commit_entity_def commit_posi_def commit_roll_def commit_text_field_def
  text_fields_def set_text_field_def safe_rep_def find_int_def py_take_def py_drop_def ljust_def
  pos_key_def rot_key_def strip_def zfill_def py_isspace_def startswith_def slice_def
  format_strict_def endswith_def rjust_def lit_def Let_def blank_entity_def

lemma ex_tags5:
  "tag_ok ''index'' ex_raw5 \<and> tag_ok ''speed'' ex_raw5 \<and> tag_ok ''posi'' ex_raw5
   \<and> tag_ok ''roll'' ex_raw5"
  by (simp add: tag_ok_def ex_raw5_def lit_def startswith_def)

lemma ex_bad_raw:
  "raw (commit_entity ex_fmt ex_form_bad ex_ent5)
     = lit ''<entity><index> </speed> </index><posi>1 2 3</posi><roll>1 0 0 0</roll><speed></speed> </index><posi>1 2 3</posi><roll>1 0 0 0</roll><speed> 1 </speed></entity>''"
  by (simp add: ex_eval ex_form_bad_def ex_ent5_def ex_raw5_def)

lemma ex_ok_tags: "commit_tags_ok ex_fmt ex_form_ok ex_ent_small"
  by (simp add: commit_tags_ok_def posi_edited_def roll_edited_def tag_ok_def ex_eval ex_fmt_def
      ex_form_ok_def ex_ent_small_def replicate_num)

lemma ex_ok_raw:
  "raw (commit_entity ex_fmt ex_form_ok ex_ent_small)
     = lit ''<posi>5 2 3</posi><speed> 2 </speed>''"
  by (simp add: ex_eval ex_fmt_def ex_form_ok_def ex_ent_small_def replicate_num)

lemma ex_sync_small:
  "sync_entity_raw ex_fmt ex_ent_small = Inr ex_ent_small"
  by (simp add: sync_entity_raw_def ex_eval ex_fmt_def ex_ent_small_def)


section \<open>Properties of the SMiData text\<close>

lemma length_fit_value: "length (fit_value new_val orig_val) = length orig_val"
  by (simp add: fit_value_def)


lemma match_here_parts:
  assumes m: "match_here k s = Some (g1, v, rest)"
  shows "s = g1 @ v @ rest"
proof -
  define p0 where "p0 = take (length k) s"
  define d0 where "d0 = drop (length k) s"
  define w1 where "w1 = takeWhile py_isspace d0"
  from m obtain r2 r4 r6 where
    a: "dropWhile py_isspace d0 = 61 # r2"
    and b: "dropWhile py_isspace r2 = 34 # r4"
    and g: "g1 = take (length s - length r4) s"
    and vv: "v = takeWhile (\<lambda>c. c \<noteq> 34 \<and> c \<noteq> 10) r4"
    and rr: "rest = drop (length v) r4"
    unfolding match_here_def Let_def d0_def
    by (auto split: if_splits list.splits)
  define w2 where "w2 = takeWhile py_isspace r2"
  have e1: "s = p0 @ d0" unfolding p0_def d0_def by simp
  have e2: "d0 = w1 @ 61 # r2"
    using takeWhile_dropWhile_id [of py_isspace d0] a unfolding w1_def by simp
  have e3: "r2 = w2 @ 34 # r4"
    using takeWhile_dropWhile_id [of py_isspace r2] b unfolding w2_def by simp
  define pre where "pre = p0 @ w1 @ [61] @ w2 @ [34]"
  have eqS: "s = pre @ r4"
    unfolding pre_def by (subst e1, subst e2, subst e3) simp
  have "take (length (pre @ r4) - length r4) (pre @ r4) = pre" by simp
  then have g1: "g1 = pre" using g eqS by simp
  have "take (length v) r4 = v" unfolding vv by (rule takeWhile_eq_take [symmetric])
  then have "r4 = v @ rest" unfolding rr using append_take_drop_id [of "length v" r4] by simp
  then show ?thesis using eqS g1 by simp
qed

lemma first_value_length: "first_value k s = Some v \<Longrightarrow> length v \<le> length s"
proof (induction s)
  case Nil
  then show ?case by simp
next
  case (Cons c cs)
  show ?case
  proof (cases "match_here k (c # cs)")
    case None
    with Cons show ?thesis by simp
  next
    case (Some m)
    obtain g1 w rest where mm: "m = (g1, w, rest)" by (cases m)
    from match_here_parts [OF Some [unfolded mm]] have "c # cs = g1 @ w @ rest" .
    then have "length (c # cs) = length g1 + length w + length rest"
      by (simp only: length_append add.assoc)
    moreover have "v = w" using Cons.prems Some mm by simp
    ultimately show ?thesis by simp
  qed
qed

lemma length_re_sub_key:
  "length (re_sub_key k new_val s)
     = (case first_value k s of
          None \<Rightarrow> length s
        | Some v \<Rightarrow> length s - length v + length new_val)"
proof (induction s)
  case Nil
  then show ?case by simp
next
  case (Cons c cs)
  show ?case
  proof (cases "match_here k (c # cs)")
    case None
    show ?thesis
    proof (cases "first_value k cs")
      case None
      then show ?thesis using \<open>match_here k (c # cs) = None\<close> Cons.IH by simp
    next
      case (Some v)
      from first_value_length [OF Some] have "length v \<le> length cs" .
      then show ?thesis using Some \<open>match_here k (c # cs) = None\<close> Cons.IH by simp
    qed
  next
    case (Some m)
    obtain g1 v rest where mm: "m = (g1, v, rest)" by (cases m)
    from match_here_parts [OF Some [unfolded mm]] have "c # cs = g1 @ v @ rest" .
    then have "length (c # cs) = length g1 + length v + length rest"
      by (simp only: length_append add.assoc)
    then show ?thesis using Some mm by simp
  qed
qed


lemma length_build_smidata_text:
  "values_fit es tx \<Longrightarrow> length (build_smidata_text es tx) = length tx"
proof (induction es arbitrary: tx)
  case Nil
  then show ?case by (simp add: build_smidata_text_def)
next
  case (Cons e es)
  define tx' where "tx' = re_sub_key (se_key e) (fit_value (se_widget e) (se_orig e)) tx"
  from Cons.prems have fit: "case first_value (se_key e) tx of
         None \<Rightarrow> True | Some v \<Rightarrow> length v = length (se_orig e)"
    and rest: "values_fit es tx'" by (simp_all add: tx'_def)
  have "length tx' = length tx"
  proof (cases "first_value (se_key e) tx")
    case None
    then show ?thesis unfolding tx'_def by (simp add: length_re_sub_key)
  next
    case (Some v)
    with fit have "length v = length (se_orig e)" by simp
    moreover from first_value_length [OF Some] have "length v \<le> length tx" .
    ultimately show ?thesis
      unfolding tx'_def using Some by (simp add: length_re_sub_key length_fit_value)
  qed
  moreover have "build_smidata_text (e # es) tx = build_smidata_text es tx'"
    by (simp add: build_smidata_text_def tx'_def)
  ultimately show ?case using Cons.IH [OF rest] by simp
qed

section \<open>kata.py: \<open>load_file\<close> followed by \<open>save_map_file\<close>\<close>

lemma match_token_Some:
  "match_token s = Some t \<Longrightarrow> t \<in> set structural_tokens \<and> startswith s t"
  by (auto simp: match_token_def find_Some_iff in_set_conv_nth)

lemma structural_nonempty: "t \<in> set structural_tokens \<Longrightarrow> t \<noteq> []"
  by (auto simp: structural_tokens_def lit_def)

lemma scan_matches_ok:
  "pos \<le> length content \<Longrightarrow> s = drop pos content \<Longrightarrow> matches_ok content pos (scan_tokens pos s)"
proof (induction pos s rule: scan_tokens.induct)
  case (1 pos)
  then show ?case by simp
next
  case (2 pos c cs)
  show ?case
  proof (cases "match_token (c # cs)")
    case None
    have lt: "pos < length content" using "2.prems" by (metis drop_all leI list.discI)
    have "cs = drop (Suc pos) content"
      using "2.prems"(2) by (metis drop_Suc tl_drop list.sel(3))
    from "2.IH"(1) [OF None _ this] lt have "matches_ok content (Suc pos) (scan_tokens (Suc pos) cs)"
      by simp
    moreover have "matches_ok content (Suc pos) ms \<Longrightarrow> matches_ok content pos ms" for ms
      by (cases ms) auto
    ultimately show ?thesis using None by simp
  next
    case (Some t)
    from match_token_Some [OF Some] have tin: "t \<in> set structural_tokens"
      and st: "startswith (c # cs) t" by simp_all
    have tk: "take (length t) (drop pos content) = t"
      using st "2.prems"(2) by (simp add: startswith_def)
    have "length t \<le> length (drop pos content)"
      using startswith_length [OF st] "2.prems"(2) by simp
    then have le: "pos + length t \<le> length content" using "2.prems"(1) by simp
    have sl: "slice content pos (pos + length t) = t"
      using tk by (simp add: slice_def take_drop add.commute)
    have "drop (length t) (c # cs) = drop (pos + length t) content"
      using "2.prems"(2) by (simp add: add.commute)
    from "2.IH"(2) [OF Some le this]
    have "matches_ok content (pos + length t)
            (scan_tokens (pos + length t) (drop (length t) (c # cs)))" .
    then show ?thesis using Some tin le sl by simp
  qed
qed


lemma tokens_distinct:
  "lit ''<entity>'' \<noteq> lit ''</entity>''" "lit ''<entity>'' \<noteq> lit ''<child>''"
  "lit ''<entity>'' \<noteq> lit ''</child>''" "lit ''<child>'' \<noteq> lit ''</entity>''"
  "lit ''<child>'' \<noteq> lit ''</child>''" "lit ''</entity>'' \<noteq> lit ''</child>''"
  by (simp_all add: lit_def)

lemma structural_cases:
  "t \<in> set structural_tokens \<Longrightarrow>
     t = lit ''<entity>'' \<or> t = lit ''</entity>'' \<or> t = lit ''<child>'' \<or> t = lit ''</child>''"
  by (simp add: structural_tokens_def)

lemma save_text_append_text: "save_text (append_text s st) = save_text st @ s"
  by (simp add: save_text_def append_text_def item_text_def)

lemma refs_append_text: "refs_in_range (append_text s st) = refs_in_range st"
  by (auto simp: refs_in_range_def append_text_def list_all_iff split: seq_item.splits)

lemma item_text_snoc:
  "(case i of Text s \<Rightarrow> True | EntRef n \<Rightarrow> n < length ents) \<Longrightarrow>
     item_text (ents @ [e]) i = item_text ents i"
  by (cases i) (simp_all add: item_text_def nth_append)

lemma save_text_seal:
  assumes "refs_in_range st"
  shows "save_text (seal_entity ent st) = save_text st @ raw ent"
proof -
  define e where "e = ent\<lparr>child_ids := []\<rparr>"
  have eq: "map (item_text (entities st @ [e])) (file_sequence st)
          = map (item_text (entities st)) (file_sequence st)"
  proof (rule map_cong [OF refl])
    fix i assume "i \<in> set (file_sequence st)"
    with assms have "case i of Text s \<Rightarrow> True | EntRef n \<Rightarrow> n < length (entities st)"
      by (simp add: refs_in_range_def list_all_iff)
    then show "item_text (entities st @ [e]) i = item_text (entities st) i"
      by (rule item_text_snoc)
  qed
  have last: "item_text (entities st @ [e]) (EntRef (length (entities st))) = raw ent"
    by (simp add: item_text_def e_def)
  have "save_text (seal_entity ent st)
          = concat (map (item_text (entities st @ [e])) (file_sequence st))
            @ item_text (entities st @ [e]) (EntRef (length (entities st)))"
    by (simp add: save_text_def seal_entity_def e_def)
  then show ?thesis unfolding eq last by (simp add: save_text_def)
qed

lemma refs_seal: "refs_in_range st \<Longrightarrow> refs_in_range (seal_entity ent st)"
  by (auto simp: refs_in_range_def seal_entity_def list_all_iff split: seq_item.splits)

lemma raw_update_child:
  "raw (ents[p := (ents ! p)\<lparr>child_ids := c\<rparr>] ! n) = raw (ents ! n)"
proof (cases "p < length ents")
  case True
  then show ?thesis by (cases "n = p") simp_all
next
  case False
  then have "ents[p := (ents ! p)\<lparr>child_ids := c\<rparr>] = ents" by (simp add: list_update_beyond)
  then show ?thesis by simp
qed

lemma save_text_link: "save_text (link_child cid st) = save_text st"
proof -
  have "item_text (entities (link_child cid st)) i = item_text (entities st) i" for i
    by (cases i) (simp_all add: item_text_def link_child_def Let_def raw_update_child)
  then have "item_text (entities (link_child cid st)) = item_text (entities st)"
    by (rule ext)
  moreover have "file_sequence (link_child cid st) = file_sequence st"
    by (simp add: link_child_def Let_def)
  ultimately show ?thesis by (simp add: save_text_def)
qed

lemma refs_link: "refs_in_range (link_child cid st) = refs_in_range st"
  by (cases "parent_stack st = []")
    (auto simp: refs_in_range_def link_child_def Let_def list_all_iff split: seq_item.splits)

lemma link_fields:
  "last_pos (link_child cid st) = last_pos st"
  "entity_start_pos (link_child cid st) = entity_start_pos st"
  by (simp_all add: link_child_def Let_def)

lemma seal_fields:
  "last_pos (seal_entity ent st) = last_pos st"
  "entity_start_pos (seal_entity ent st) = entity_start_pos st"
  "parent_stack (seal_entity ent st) = parent_stack st"
  by (simp_all add: seal_entity_def)

lemma append_text_fields:
  "last_pos (append_text s st) = last_pos st"
  "entity_start_pos (append_text s st) = entity_start_pos st"
  "parent_stack (append_text s st) = parent_stack st"
  "entities (append_text s st) = entities st"
  by (simp_all add: append_text_def)

lemma save_text_fields:
  "save_text (st\<lparr>last_pos := a\<rparr>) = save_text st"
  "save_text (st\<lparr>entity_start_pos := b\<rparr>) = save_text st"
  "save_text (st\<lparr>parent_stack := c\<rparr>) = save_text st"
  by (simp_all add: save_text_def)

lemma refs_fields:
  "refs_in_range (st\<lparr>last_pos := a\<rparr>) = refs_in_range st"
  "refs_in_range (st\<lparr>entity_start_pos := b\<rparr>) = refs_in_range st"
  "refs_in_range (st\<lparr>parent_stack := c\<rparr>) = refs_in_range st"
  by (auto simp: refs_in_range_def list_all_iff split: seq_item.splits)

lemma parse_block_raw: "parse_block pyfloat b = Inr ent \<Longrightarrow> raw ent = b"
  by (auto simp: parse_block_def Let_def split: prod.splits sum.splits)

lemma take_slice: "a \<le> b \<Longrightarrow> take a c @ slice c a b = take b c"
proof -
  assume "a \<le> b"
  then have "take a (take b c) = take a c" by (simp add: min_def)
  then have "take a c @ drop a (take b c) = take b c"
    using append_take_drop_id [of a "take b c"] by simp
  then show ?thesis by (simp add: slice_def)
qed

lemma load_step_inv:
  assumes inv: "load_inv content st"
    and pos: "last_pos st \<le> s" and e: "e = s + length t" and eb: "e \<le> length content"
    and sl: "slice content s e = t" and tok: "t \<in> set structural_tokens"
    and ok: "entity_start_pos st \<noteq> None \<longrightarrow> t = lit ''<child>'' \<or> t = lit ''</entity>''"
    and run: "load_step pyfloat content (t, s, e) st = Inr st'"
  shows "load_inv content st' \<and> last_pos st' = e
         \<and> (entity_start_pos st' \<noteq> None \<longleftrightarrow> t = lit ''<entity>'')"
proof (cases "entity_start_pos st")
  case None
  define st1 where "st1 = (if last_pos st < s
      then append_text (slice content (last_pos st) s) st else st)"
  from inv None have sv: "save_text st = take (last_pos st) content"
    and rf: "refs_in_range st" by (simp_all add: load_inv_def)
  have sv1: "save_text st1 = take s content"
  proof (cases "last_pos st < s")
    case True
    then show ?thesis
      using sv take_slice [of "last_pos st" s content]
      by (simp add: st1_def save_text_append_text)
  next
    case False
    with pos have "last_pos st = s" by simp
    with sv False show ?thesis by (simp add: st1_def)
  qed
  have rf1: "refs_in_range st1" using rf by (simp add: st1_def refs_append_text)
  have n1: "entity_start_pos st1 = None" using None by (simp add: st1_def append_text_fields)
  have se: "s \<le> e" using e by simp
  have full: "take s content @ t = take e content"
    using take_slice [OF se, of content] sl by simp
  from structural_cases [OF tok] show ?thesis
  proof (elim disjE)
    assume t: "t = lit ''<entity>''"
    with run None have st': "st' = st1\<lparr>entity_start_pos := Some s, last_pos := e\<rparr>"
      by (simp add: load_step_def st1_def Let_def)
    show ?thesis
      using sv1 rf1 se eb t
      by (simp add: st' load_inv_def save_text_fields refs_fields)
  next
    assume t: "t = lit ''</entity>''"
    with run None n1 have st': "st' = (append_text t st1)\<lparr>last_pos := e\<rparr>"
      by (simp add: load_step_def st1_def [symmetric] Let_def tokens_distinct
          tokens_distinct [symmetric])
    show ?thesis
      using sv1 rf1 eb full n1 t
      by (simp add: st' load_inv_def save_text_fields refs_fields save_text_append_text
          refs_append_text append_text_fields tokens_distinct tokens_distinct [symmetric])
  next
    assume t: "t = lit ''<child>''"
    with run None n1 have st': "st' = (append_text t st1)\<lparr>last_pos := e\<rparr>"
      by (simp add: load_step_def st1_def [symmetric] Let_def tokens_distinct
          tokens_distinct [symmetric])
    show ?thesis
      using sv1 rf1 eb full n1 t
      by (simp add: st' load_inv_def save_text_fields refs_fields save_text_append_text
          refs_append_text append_text_fields tokens_distinct tokens_distinct [symmetric])
  next
    assume t: "t = lit ''</child>''"
    with run None n1 have st': "st' = (append_text t st1)
                  \<lparr>parent_stack := butlast (parent_stack st1), last_pos := e\<rparr>"
      by (simp add: load_step_def st1_def [symmetric] Let_def tokens_distinct
          tokens_distinct [symmetric])
    show ?thesis
      using sv1 rf1 eb full n1 t
      by (simp add: st' load_inv_def save_text_fields refs_fields save_text_append_text
          refs_append_text append_text_fields tokens_distinct tokens_distinct [symmetric])
  qed
next
  case (Some esp)
  from inv Some have sv: "save_text st = take esp content" and le: "esp \<le> last_pos st"
    and rf: "refs_in_range st" by (simp_all add: load_inv_def)
  have es: "esp \<le> s" using le pos by simp
  have se: "s \<le> e" using e by simp
  from ok Some have "t = lit ''<child>'' \<or> t = lit ''</entity>''" by simp
  then show ?thesis
  proof
    assume t: "t = lit ''<child>''"
    with run Some obtain ent where pb: "parse_block pyfloat (slice content esp s) = Inr ent"
      and st': "st' = (append_text t
                            ((seal_entity ent st)
                               \<lparr>parent_stack := parent_stack st @ [length (entities st)],
                                entity_start_pos := None\<rparr>))\<lparr>last_pos := e\<rparr>"
      by (auto simp: load_step_def Let_def tokens_distinct tokens_distinct [symmetric]
          split: sum.splits)
    have r: "raw ent = slice content esp s" by (rule parse_block_raw [OF pb])
    have "save_text st' = save_text st @ raw ent @ t"
      by (simp add: st' save_text_fields save_text_append_text save_text_seal [OF rf])
    also have "\<dots> = (take esp content @ slice content esp s) @ slice content s e"
      by (simp add: sv r sl)
    also have "\<dots> = take e content"
      by (simp only: take_slice [OF es] take_slice [OF se])
    finally have sv': "save_text st' = take e content" .
    have "refs_in_range st'"
      by (simp add: st' refs_fields refs_append_text refs_seal [OF rf])
    then show ?thesis
      using sv' eb t
      by (simp add: st' load_inv_def append_text_fields tokens_distinct
          tokens_distinct [symmetric])
  next
    assume t: "t = lit ''</entity>''"
    with run Some obtain ent where pb: "parse_block pyfloat (slice content esp e) = Inr ent"
      and st': "st' = (link_child (ent_id ent) (seal_entity ent st))
                            \<lparr>entity_start_pos := None, last_pos := e\<rparr>"
      by (auto simp: load_step_def Let_def tokens_distinct tokens_distinct [symmetric]
          split: sum.splits)
    have r: "raw ent = slice content esp e" by (rule parse_block_raw [OF pb])
    have ee: "esp \<le> e" using es se by simp
    have "save_text st' = save_text st @ raw ent"
      by (simp add: st' save_text_fields save_text_link save_text_seal [OF rf])
    also have "\<dots> = take e content"
      using take_slice [OF ee, of content] by (simp add: sv r)
    finally have sv': "save_text st' = take e content" .
    have "refs_in_range st'"
      by (simp add: st' refs_fields refs_link refs_seal [OF rf])
    then show ?thesis
      using sv' eb t
      by (simp add: st' load_inv_def tokens_distinct tokens_distinct [symmetric])
  qed
qed

lemma load_loop_inv:
  assumes "load_inv content st" and "matches_ok content (last_pos st) ms"
    and "records_closed (entity_start_pos st \<noteq> None) (map fst ms)"
    and "load_loop pyfloat content ms st = (None, st')"
  shows "load_inv content st' \<and> entity_start_pos st' = None"
  using assms
proof (induction ms arbitrary: st)
  case Nil
  then show ?case by simp
next
  case (Cons m ms)
  obtain t s e where m: "m = (t, s, e)" by (cases m)
  from Cons.prems(2) have all: "last_pos st \<le> s \<and> e = s + length t
    \<and> e \<le> length content \<and> slice content s e = t
    \<and> t \<in> set structural_tokens \<and> matches_ok content e ms"
    unfolding m matches_ok.simps .
  then have pos: "last_pos st \<le> s" and e: "e = s + length t"
    and eb: "e \<le> length content" and sl: "slice content s e = t"
    and tok: "t \<in> set structural_tokens" and rest: "matches_ok content e ms"
    by blast+
  from Cons.prems(4) obtain st1 where run: "load_step pyfloat content (t, s, e) st = Inr st1"
    and loop: "load_loop pyfloat content ms st1 = (None, st')"
    by (auto simp: m split: sum.splits)
  have ok: "entity_start_pos st \<noteq> None \<longrightarrow> t = lit ''<child>'' \<or> t = lit ''</entity>''"
    using Cons.prems(3) by (auto simp: m split: if_splits)
  have nxt: "records_closed (t = lit ''<entity>'') (map fst ms)"
    using Cons.prems(3) structural_cases [OF tok]
    by (auto simp: m tokens_distinct tokens_distinct [symmetric] split: if_splits)
  from load_step_inv [OF Cons.prems(1) pos e eb sl tok ok run]
  have inv1: "load_inv content st1" and lp: "last_pos st1 = e"
    and rec: "(entity_start_pos st1 \<noteq> None) = (t = lit ''<entity>'')" by simp_all
  have m1: "matches_ok content (last_pos st1) ms" using rest lp by simp
  have c1: "records_closed (entity_start_pos st1 \<noteq> None) (map fst ms)"
    unfolding rec by (rule nxt)
  show ?case by (rule Cons.IH [OF inv1 m1 c1 loop])
qed

lemma load_text_roundtrip:
  assumes closed: "records_closed False (map fst (scan_tokens 0 content))"
    and run: "load_text pyfloat content = (None, st)"
  shows "save_text st = content"
proof -
  define st0 where "st0 = \<lparr>file_sequence = [], entities = [], last_pos = 0,
     entity_start_pos = None, parent_stack = []\<rparr>"
  from run obtain st1 where loop: "load_loop pyfloat content (scan_tokens 0 content) st0 = (None, st1)"
    and st: "st = (if last_pos st1 < length content
                 then append_text (drop (last_pos st1) content) st1 else st1)"
    by (auto simp: load_text_def st0_def split: prod.splits option.splits)
  have inv0: "load_inv content st0"
    by (simp add: load_inv_def st0_def refs_in_range_def save_text_def)
  have m0: "matches_ok content (last_pos st0) (scan_tokens 0 content)"
    using scan_matches_ok [of 0 content content] by (simp add: st0_def)
  have c0: "records_closed (entity_start_pos st0 \<noteq> None) (map fst (scan_tokens 0 content))"
    using closed by (simp add: st0_def)
  from load_loop_inv [OF inv0 m0 c0 loop] have inv1: "load_inv content st1"
    and n1: "entity_start_pos st1 = None" by simp_all
  then have sv: "save_text st1 = take (last_pos st1) content"
    and lb: "last_pos st1 \<le> length content" by (simp_all add: load_inv_def)
  show ?thesis
  proof (cases "last_pos st1 < length content")
    case True
    then show ?thesis using sv by (simp add: st save_text_append_text)
  next
    case False
    with lb have "last_pos st1 = length content" by simp
    with sv False show ?thesis by (simp add: st)
  qed
qed

lemma nested_closed:
  "nested stk ts \<Longrightarrow> Recording \<notin> set (tl stk) \<Longrightarrow>
     records_closed (stk \<noteq> [] \<and> hd stk = Recording) ts"
proof (induction ts arbitrary: stk)
  case Nil
  then show ?case by simp
next
  case (Cons t ts)
  consider (ent) "t = lit ''<entity>''" | (child) "t = lit ''<child>''"
    | (cchild) "t = lit ''</child>''" | (cent) "t = lit ''</entity>''"
    | (other) "t \<noteq> lit ''<entity>''" "t \<noteq> lit ''<child>''" "t \<noteq> lit ''</child>''"
        "t \<noteq> lit ''</entity>''"
    by blast
  then show ?case
  proof cases
    case ent
    with Cons.prems(1) have nr: "\<not> (stk \<noteq> [] \<and> hd stk = Recording)"
      and n: "nested (Recording # stk) ts"
      by (auto split: list.splits frame.splits)
    have "Recording \<notin> set stk" using nr Cons.prems(2) by (cases stk) auto
    from Cons.IH [OF n] this have "records_closed True ts" by simp
    with nr ent show ?thesis by simp
  next
    case child
    with Cons.prems(1) obtain r where stk: "stk = Recording # r \<or> stk = Sealed # r"
      and n: "nested (ChildBlock # Sealed # r) ts"
      by (auto simp: tokens_distinct tokens_distinct [symmetric] split: list.splits frame.splits)
    have "Recording \<notin> set (tl (ChildBlock # Sealed # r))" using stk Cons.prems(2) by auto
    from Cons.IH [OF n this] have "records_closed False ts" by simp
    with child show ?thesis by (simp add: tokens_distinct tokens_distinct [symmetric])
  next
    case cchild
    with Cons.prems(1) obtain r where stk: "stk = ChildBlock # r" and n: "nested r ts"
      by (auto simp: tokens_distinct tokens_distinct [symmetric] split: list.splits frame.splits)
    have nr: "Recording \<notin> set r" using stk Cons.prems(2) by simp
    then have a: "Recording \<notin> set (tl r)" by (cases r) auto
    have b: "\<not> (r \<noteq> [] \<and> hd r = Recording)" using nr by (cases r) auto
    from Cons.IH [OF n a] b have "records_closed False ts" by simp
    with cchild stk show ?thesis by (simp add: tokens_distinct tokens_distinct [symmetric])
  next
    case cent
    with Cons.prems(1) obtain r where stk: "stk = Recording # r \<or> stk = Sealed # r"
      and n: "nested r ts"
      by (auto simp: tokens_distinct tokens_distinct [symmetric] split: list.splits frame.splits)
    have nr: "Recording \<notin> set r" using stk Cons.prems(2) by auto
    then have a: "Recording \<notin> set (tl r)" by (cases r) auto
    have b: "\<not> (r \<noteq> [] \<and> hd r = Recording)" using nr by (cases r) auto
    from Cons.IH [OF n a] b have "records_closed False ts" by simp
    with cent show ?thesis by (simp add: tokens_distinct tokens_distinct [symmetric])
  next
    case other
    with Cons.prems(1) show ?thesis by simp
  qed
qed

lemma ex_latin1_decode: "utf8_decode_ignore ex_latin1 = lit ''<!-- caf -->''"
  by (simp add: ex_latin1_def blit_def lit_def is_cont_def second_ok3_def)

lemma ex_latin1_tokens: "scan_tokens 0 (lit ''<!-- caf -->'') = []"
  by (simp add: lit_def match_token_def structural_tokens_def startswith_def)

lemma ex_map_decode:
  "utf8_decode_ignore ex_map
     = lit ''a<entity>H<child><entity><posi>1 2 3</posi></entity></child></entity>z''"
  by (simp add: ex_map_def blit_def lit_def)

lemma ex_map_encode:
  "utf8_encode (lit ''a<entity>H<child><entity><posi>1 2 3</posi></entity></child></entity>z'')
     = Inr ex_map"
  by (simp add: ex_map_def blit_def lit_def utf8_char_def)

lemma ex_map_tokens:
  "scan_tokens 0 (lit ''a<entity>H<child><entity><posi>1 2 3</posi></entity></child></entity>z'')
     = [(lit ''<entity>'', 1, 9), (lit ''<child>'', 10, 17), (lit ''<entity>'', 17, 25),
        (lit ''</entity>'', 43, 52), (lit ''</child>'', 52, 60), (lit ''</entity>'', 60, 69)]"
  by (simp add: lit_def match_token_def structural_tokens_def startswith_def)


lemma ex_map_loads: "fst (load_file ex_float ex_map) = None"
  unfolding load_file_def load_text_def ex_map_decode ex_map_tokens
  by (simp add: load_step_def parse_block_def parse_numbers_def get_t_def re_tag_def
      token_spans_def ex_float_def seal_entity_def append_text_def link_child_def
      strip_def py_isspace_def startswith_def slice_def lit_def Let_def
      split: prod.splits)

text \<open>
  C9. For every float value and every natural width, \<open>format_strict\<close> returns exactly
  \<open>width\<close> characters, and \<open>enforce_length\<close> returns exactly \<open>len(orig)\<close> characters,
  whatever the float formatting produces.
\<close>

theorem C9_fixed_width:
  "length (format_strict fmt10 val width) = width
   \<and> length (enforce_length fmt6 orig val') = length orig"
  by (auto simp: format_strict_def enforce_length_def Let_def length_ljust length_rjust
      endswith_def lit_def)

text \<open>
  C1. In \<open>inject_level\<close>, \<open>inject_smidata_block\<close> and \<open>inject_warp_block\<close>, content
  that is strictly longer than the slot is reported as an error and nothing is written:
  the .dat file comes back as it was.
\<close>

theorem C1_too_long_rejected:
  "(sel \<noteq> [] \<and> hd sel < length offs \<and> content_length (offs ! hd sel) < length c \<longrightarrow>
      inject_level sel offs (Some c) pad_mode confirm dat
        = (Error_too_long (int (length c) - int (content_length (offs ! hd sel))), dat))
   \<and> (utf8_encode t = Inr bs \<and> int (b_end blk) - int (b_start blk) < int (length bs) \<longrightarrow>
      inject_smidata_block (Some blk) True t confirm dat
        = (Error_too_long (int (length bs) - (int (b_end blk) - int (b_start blk))), dat, Some blk))
   \<and> (utf8_encode t = Inr bs \<and> int (b_end blk) - int (b_start blk) < int (length bs) \<longrightarrow>
      inject_warp_block (Some blk) True t confirm dat
        = (Error_too_long (int (length bs) - (int (b_end blk) - int (b_start blk))), dat, Some blk))"
  by (auto simp: inject_level_def inject_smidata_block_def inject_warp_block_def Let_def)


theorem C1_witness:
  "inject_level [0] [ex_info] (Some (blit ''wxyz'')) ''spaces_end'' True (blit ''<loc>abc</loc>'')
     = (Error_too_long 1, blit ''<loc>abc</loc>'')
   \<and> inject_smidata_block (Some ex_block) True (lit ''<a=\"123\"/>'') True (blit ''..<a=\"1\"/>..'')
     = (Error_too_long 2, blit ''..<a=\"1\"/>..'', Some ex_block)
   \<and> inject_warp_block (Some ex_block) True (lit ''<a=\"123\"/>'') True (blit ''..<a=\"1\"/>..'')
     = (Error_too_long 2, blit ''..<a=\"1\"/>..'', Some ex_block)"
  using C1_too_long_rejected [where sel = "[0]" and offs = "[ex_info]" and c = "blit ''wxyz''"
      and t = "lit ''<a=\"123\"/>''" and bs = "blit ''<a=\"123\"/>''" and blk = ex_block
      and pad_mode = "''spaces_end''" and confirm = True and dat = "blit ''<loc>abc</loc>''"]
    C1_too_long_rejected [where sel = "[0]" and offs = "[ex_info]" and c = "blit ''wxyz''"
      and t = "lit ''<a=\"123\"/>''" and bs = "blit ''<a=\"123\"/>''" and blk = ex_block
      and pad_mode = "''spaces_end''" and confirm = True and dat = "blit ''..<a=\"1\"/>..''"]
  by (simp add: enc1 ex_info_def ex_block_def blit_def)






text \<open>
  C3 as stated fails on the lighting path: a text one byte shorter than its slot is
  refused with a length mismatch, and nothing is written.
\<close>

theorem C3_lighting_counterexample:
  "utf8_encode (lit ''<SData A=\"1 2\"/>'') = Inr (blit ''<SData A=\"1 2\"/>'')
   \<and> int (length (blit ''<SData A=\"1 2\"/>'')) < int (b_end ex_sdata) - int (b_start ex_sdata)
   \<and> inject_lighting_block (Some ex_sdata) (lit ''<SData A=\"1 2\"/>'') True
         (blit ''<SData A=\"1  2\"/>'')
       = (Error_length_mismatch, blit ''<SData A=\"1  2\"/>'', Some ex_sdata)"
  by (simp add: inject_lighting_block_def ex_sdata_def lit_def blit_def utf8_char_def Let_def)

text \<open>
  C3, as amended. Content shorter than the slot is padded with spaces to the slot length
  and written once the user confirms, in the level, SMiData and warp paths. The lighting
  path does not pad: it refuses every content whose length differs from the slot's.
\<close>

theorem C3_shorter_padded:
  "(sel \<noteq> [] \<and> hd sel < length offs \<and> length c < content_length (offs ! hd sel) \<longrightarrow>
      wrote (fst (inject_level sel offs (Some c) pad_mode True dat))
      \<and> snd (inject_level sel offs (Some c) pad_mode True dat)
          = write_at dat (content_start (offs ! hd sel))
              (pad_level pad_mode c (content_length (offs ! hd sel)))
      \<and> length (pad_level pad_mode c (content_length (offs ! hd sel)))
          = content_length (offs ! hd sel)
      \<and> (\<exists>i\<le>length c. pad_level pad_mode c (content_length (offs ! hd sel))
            = take i c @ replicate (content_length (offs ! hd sel) - length c) 32 @ drop i c))
   \<and> (utf8_encode t = Inr bs \<and> int (length bs) < int (b_end blk) - int (b_start blk) \<longrightarrow>
      (\<exists>x y. bs = x @ y \<and>
         inject_smidata_block (Some blk) True t True dat
           = (Injected,
              write_at dat (b_start blk)
                (x @ replicate (b_end blk - b_start blk - length bs) 32 @ y),
              Some (blk\<lparr>b_text := take (length t - 2) t
                       @ replicate (b_end blk - b_start blk - length bs) 32
                       @ drop (length t - 2) t\<rparr>))))
   \<and> (utf8_encode t = Inr bs \<and> int (length bs) < int (b_end blk) - int (b_start blk) \<longrightarrow>
      inject_warp_block (Some blk) True t True dat
        = (Injected,
           write_at dat (b_start blk) (bs @ replicate (b_end blk - b_start blk - length bs) 32),
           Some (blk\<lparr>b_text := t\<rparr>)))
   \<and> (utf8_encode t = Inr bs \<and> int (length bs) \<noteq> int (b_end blk) - int (b_start blk) \<longrightarrow>
      inject_lighting_block (Some blk) t confirm dat = (Error_length_mismatch, dat, Some blk))"
proof (intro conjI impI)
  assume h: "sel \<noteq> [] \<and> hd sel < length offs \<and> length c < content_length (offs ! hd sel)"
  let ?n = "content_length (offs ! hd sel)"
  have len: "length (pad_level pad_mode c ?n) = ?n"
    using h by (simp add: length_pad_level)
  show "length (pad_level pad_mode c ?n) = ?n" by (rule len)
  show "wrote (fst (inject_level sel offs (Some c) pad_mode True dat))"
    using h len by (auto simp: inject_level_def Let_def wrote_def)
  show "snd (inject_level sel offs (Some c) pad_mode True dat)
          = write_at dat (content_start (offs ! hd sel)) (pad_level pad_mode c ?n)"
    using h len by (auto simp: inject_level_def Let_def)
  show "\<exists>i\<le>length c. pad_level pad_mode c ?n
            = take i c @ replicate (?n - length c) 32 @ drop i c"
    using h by (intro pad_level_shape) simp
next
  assume h: "utf8_encode t = Inr bs \<and> int (length bs) < int (b_end blk) - int (b_start blk)"
  define n where "n = b_end blk - b_start blk - length bs"
  define k where "k = length t - 2"
  from utf8_encode_split [of t bs k] h obtain x y where
    x: "utf8_encode (take k t) = Inr x" and y: "utf8_encode (drop k t) = Inr y"
    and bs: "bs = x @ y" by blast
  have d: "nat (int (b_end blk) - int (b_start blk) - int (length bs)) = n"
    unfolding n_def by linarith
  have enc: "utf8_encode (take k t @ replicate n 32 @ drop k t) = Inr (x @ replicate n 32 @ y)"
    by (simp add: utf8_encode_append x y utf8_encode_spaces)
  have len: "int (length (x @ replicate n 32 @ y)) = int (b_end blk) - int (b_start blk)"
    using h bs unfolding n_def by simp
  have ne: "int (length bs) \<noteq> int (b_end blk) - int (b_start blk)"
    and pos: "0 < int (b_end blk) - int (b_start blk) - int (length bs)" using h by simp_all
  have "inject_smidata_block (Some blk) True t True dat
           = (Injected, write_at dat (b_start blk) (x @ replicate n 32 @ y),
              Some (blk\<lparr>b_text := take k t @ replicate n 32 @ drop k t\<rparr>))"
    unfolding inject_smidata_block_def Let_def k_def [symmetric]
    using h ne pos enc len by (simp add: d del: length_append length_replicate)
  then show "\<exists>x y. bs = x @ y \<and>
         inject_smidata_block (Some blk) True t True dat
           = (Injected,
              write_at dat (b_start blk)
                (x @ replicate (b_end blk - b_start blk - length bs) 32 @ y),
              Some (blk\<lparr>b_text := take (length t - 2) t
                       @ replicate (b_end blk - b_start blk - length bs) 32
                       @ drop (length t - 2) t\<rparr>))"
    using bs unfolding n_def k_def by blast
next
  assume h: "utf8_encode t = Inr bs \<and> int (length bs) < int (b_end blk) - int (b_start blk)"
  define n where "n = b_end blk - b_start blk - length bs"
  have d: "nat (int (b_end blk) - int (b_start blk) - int (length bs)) = n"
    unfolding n_def by linarith
  have len: "int (length (bs @ replicate n 32)) = int (b_end blk) - int (b_start blk)"
    using h unfolding n_def by simp
  have "inject_warp_block (Some blk) True t True dat
        = (Injected, write_at dat (b_start blk) (bs @ replicate n 32), Some (blk\<lparr>b_text := t\<rparr>))"
    unfolding inject_warp_block_def Let_def
    using h len by (simp add: d del: length_append length_replicate)
  then show "inject_warp_block (Some blk) True t True dat
        = (Injected,
           write_at dat (b_start blk) (bs @ replicate (b_end blk - b_start blk - length bs) 32),
           Some (blk\<lparr>b_text := t\<rparr>))"
    unfolding n_def .
next
  assume "utf8_encode t = Inr bs \<and> int (length bs) \<noteq> int (b_end blk) - int (b_start blk)"
  then show "inject_lighting_block (Some blk) t confirm dat = (Error_length_mismatch, dat, Some blk)"
    by (simp add: inject_lighting_block_def Let_def)
qed

theorem C3_witness:
  "snd (inject_level [0] [ex_info] (Some (blit ''Q'')) ''spaces_tail'' True (blit ''<loc>abc</loc>''))
     = blit ''<loc>Q  </loc>''
   \<and> fst (inject_smidata_block (Some ex_block) True (lit ''<a=\"\"/>'') True
           (blit ''..<a=\"1\"/>..'')) = Injected
   \<and> inject_warp_block (Some ex_block) True (lit ''<a=\"\"/>'') True (blit ''..<a=\"1\"/>..'')
     = (Injected, blit ''..<a=\"\"/> ..'', Some (ex_block\<lparr>b_text := lit ''<a=\"\"/>''\<rparr>))
   \<and> inject_lighting_block (Some ex_block) (lit ''<a=\"\"/>'') True (blit ''..<a=\"1\"/>..'')
     = (Error_length_mismatch, blit ''..<a=\"1\"/>..'', Some ex_block)"
proof -
  have h1: "[0] \<noteq> [] \<and> hd [0] < length [ex_info]
      \<and> length (blit ''Q'') < content_length ([ex_info] ! hd [0])"
    by (simp add: ex_info_def blit_def)
  have h2: "utf8_encode (lit ''<a=\"\"/>'') = Inr (blit ''<a=\"\"/>'')
      \<and> int (length (blit ''<a=\"\"/>'')) < int (b_end ex_block) - int (b_start ex_block)"
    by (simp add: ex_block_def lit_def blit_def utf8_char_def)
  have h3: "utf8_encode (lit ''<a=\"\"/>'') = Inr (blit ''<a=\"\"/>'')
      \<and> int (length (blit ''<a=\"\"/>'')) \<noteq> int (b_end ex_block) - int (b_start ex_block)"
    by (simp add: ex_block_def lit_def blit_def utf8_char_def)
  from C3_shorter_padded [THEN conjunct1, rule_format, OF h1, THEN conjunct2, THEN conjunct1,
      of "''spaces_tail''" "blit ''<loc>abc</loc>''"]
  have c1: "snd (inject_level [0] [ex_info] (Some (blit ''Q'')) ''spaces_tail'' True
               (blit ''<loc>abc</loc>'')) = blit ''<loc>Q  </loc>''"
    by (simp add: pad_level_def write_at_def ex_info_def blit_def replicate_num)
  from C3_shorter_padded [THEN conjunct2, THEN conjunct1, rule_format, OF h2,
      of "blit ''..<a=\"1\"/>..''"]
  have c2: "fst (inject_smidata_block (Some ex_block) True (lit ''<a=\"\"/>'') True
           (blit ''..<a=\"1\"/>..'')) = Injected"
    by auto
  from C3_shorter_padded [THEN conjunct2, THEN conjunct2, THEN conjunct1, rule_format, OF h2,
      of "blit ''..<a=\"1\"/>..''"]
  have c3: "inject_warp_block (Some ex_block) True (lit ''<a=\"\"/>'') True
           (blit ''..<a=\"1\"/>..'')
     = (Injected, blit ''..<a=\"\"/> ..'', Some (ex_block\<lparr>b_text := lit ''<a=\"\"/>''\<rparr>))"
    by (simp add: write_at_def ex_block_def blit_def lit_def replicate_num)
  from C3_shorter_padded [THEN conjunct2, THEN conjunct2, THEN conjunct2, rule_format, OF h3]
  have c4: "inject_lighting_block (Some ex_block) (lit ''<a=\"\"/>'') True (blit ''..<a=\"1\"/>..'')
     = (Error_length_mismatch, blit ''..<a=\"1\"/>..'', Some ex_block)"
    by simp
  from c1 c2 c3 c4 show ?thesis by simp
qed

text \<open>
  C4 as stated fails. \<open>load_file\<close> decodes the bytes of the file with
  \<open>decode('utf-8', errors='ignore')\<close>, which drops every byte that is not part of a
  UTF-8 sequence, and \<open>save_map_file\<close> encodes what was decoded. The file
  \<open>ex_latin1\<close> has no structural token at all, so its tokens are properly nested; it
  loads without error and is saved one byte shorter.
\<close>

theorem C4_counterexample:
  "properly_nested (utf8_decode_ignore ex_latin1)
   \<and> load_file ex_float ex_latin1
       = (None, \<lparr>file_sequence = [Text (lit ''<!-- caf -->'')], entities = [], last_pos = 0,
                 entity_start_pos = None, parent_stack = []\<rparr>)
   \<and> save_map_file \<lparr>file_sequence = [Text (lit ''<!-- caf -->'')], entities = [], last_pos = 0,
                 entity_start_pos = None, parent_stack = []\<rparr> = Inr (blit ''<!-- caf -->'')
   \<and> blit ''<!-- caf -->'' \<noteq> ex_latin1"
proof -
  have a: "properly_nested (utf8_decode_ignore ex_latin1)"
    by (simp add: properly_nested_def ex_latin1_decode ex_latin1_tokens)
  have b: "load_file ex_float ex_latin1
       = (None, \<lparr>file_sequence = [Text (lit ''<!-- caf -->'')], entities = [], last_pos = 0,
                 entity_start_pos = None, parent_stack = []\<rparr>)"
    by (simp add: load_file_def load_text_def ex_latin1_decode ex_latin1_tokens append_text_def)
       (simp add: lit_def)
  have c: "save_map_file \<lparr>file_sequence = [Text (lit ''<!-- caf -->'')], entities = [],
             last_pos = 0, entity_start_pos = None, parent_stack = []\<rparr>
             = Inr (blit ''<!-- caf -->'')"
    by (simp add: save_map_file_def save_text_def item_text_def lit_def blit_def utf8_char_def)
  have d: "blit ''<!-- caf -->'' \<noteq> ex_latin1" by (simp add: ex_latin1_def blit_def)
  from a b c d show ?thesis by blast
qed

text \<open>
  C4, as amended. For a map file whose bytes are valid UTF-8 (decoding and encoding
  again gives the same bytes), whose structural tokens are properly nested, and which
  \<open>load_file\<close> reads to the end without an error (\<open>float\<close> raises ValueError on a
  position or rotation token that is not a number), \<open>save_map_file\<close> right after
  \<open>load_file\<close> writes the bytes of the file that was read.
\<close>

theorem C4_load_save_identity:
  assumes valid: "utf8_encode (utf8_decode_ignore file_bytes) = Inr file_bytes"
    and nest: "properly_nested (utf8_decode_ignore file_bytes)"
    and loaded: "load_file pyfloat file_bytes = (None, st)"
  shows "save_text st = utf8_decode_ignore file_bytes \<and> save_map_file st = Inr file_bytes"
proof -
  from nested_closed [of "[]" "map fst (scan_tokens 0 (utf8_decode_ignore file_bytes))"] nest
  have "records_closed False (map fst (scan_tokens 0 (utf8_decode_ignore file_bytes)))"
    by (simp add: properly_nested_def)
  from load_text_roundtrip [OF this] loaded
  have "save_text st = utf8_decode_ignore file_bytes" by (simp add: load_file_def)
  then show ?thesis using valid by (simp add: save_map_file_def)
qed

theorem C4_witness:
  "utf8_encode (utf8_decode_ignore ex_map) = Inr ex_map
   \<and> properly_nested (utf8_decode_ignore ex_map)
   \<and> fst (load_file ex_float ex_map) = None
   \<and> save_map_file (snd (load_file ex_float ex_map)) = Inr ex_map"
proof -
  have v: "utf8_encode (utf8_decode_ignore ex_map) = Inr ex_map"
    by (simp add: ex_map_decode ex_map_encode)
  have n: "properly_nested (utf8_decode_ignore ex_map)"
    unfolding properly_nested_def ex_map_decode ex_map_tokens by (simp add: lit_def)
  have l: "load_file ex_float ex_map = (None, snd (load_file ex_float ex_map))"
    using ex_map_loads by (simp add: prod_eq_iff)
  from C4_load_save_identity [OF v n l] v n ex_map_loads show ?thesis by simp
qed

text \<open>
  C5. The claim is that an edit keeps the length of an entity's raw block when the block
  holds the matching tags of every edited field. \<open>commit_batch_changes\<close> breaks it on
  this entity, parsed from a block that holds the matching tags of every field, with three
  position and four rotation tokens: the user types \<open></speed>\<close> as the id and edits the
  speed too. The id is written into \<open><index>\<close>; \<open>safe_rep\<close> then looks for \<open></speed>\<close>
  from the start of the block and not from the end of \<open><speed>\<close>, finds the typed one in
  front of \<open><speed>\<close>, and the block grows from 98 to 160 characters.
\<close>

theorem C5_commit_grows_block:
  "parse_block ex_float ex_raw5 = Inr ex_ent5
   \<and> tag_ok ''index'' (raw ex_ent5) \<and> tag_ok ''speed'' (raw ex_ent5)
   \<and> tag_ok ''posi'' (raw ex_ent5) \<and> tag_ok ''roll'' (raw ex_ent5)
   \<and> length (p_indices ex_ent5) = 3 \<and> length (r_indices ex_ent5) = 4
   \<and> length (raw ex_ent5) = 98
   \<and> length (raw (commit_entity ex_fmt ex_form_bad ex_ent5)) = 160"
proof -
  have r: "raw ex_ent5 = ex_raw5" by (simp add: ex_ent5_def)
  have "length (raw ex_ent5) = 98" by (simp add: r ex_raw5_def lit_def)
  moreover have "length (raw (commit_entity ex_fmt ex_form_bad ex_ent5)) = 160"
    unfolding ex_bad_raw by (simp add: lit_def)
  moreover have "length (p_indices ex_ent5) = 3 \<and> length (r_indices ex_ent5) = 4"
    by (simp add: ex_ent5_def)
  ultimately show ?thesis using ex_parse5 ex_tags5 by (simp add: r)
qed

text \<open>
  Where the edits do keep the length: if every field that is rewritten has, in the block
  as it stands when the field is rewritten, its opening tag before its first closing tag,
  then \<open>commit_batch_changes\<close> keeps the length of the entity's raw block,
  \<open>_sync_entity_raw\<close> keeps it when \<open><posi>\<close> stands before \<open></posi>\<close>, and the text
  that \<open>save_map_file\<close> joins keeps its length.
\<close>

theorem edits_keep_length_when_tags_ok:
  "(commit_tags_ok fmt10 form ent \<longrightarrow>
      length (raw (commit_entity fmt10 form ent)) = length (raw ent))
   \<and> (tag_ok ''posi'' (raw ent) \<and> sync_entity_raw fmt10 ent = Inr ent' \<longrightarrow>
      length (raw ent') = length (raw ent))
   \<and> (commit_loop_ok fmt10 form sel (entities st) \<and> refs_in_range st \<longrightarrow>
      length (save_text (st\<lparr>entities := snd (commit_batch_changes fmt10 form sel (entities st))\<rparr>))
        = length (save_text st))"
proof (intro conjI impI)
  assume "commit_tags_ok fmt10 form ent"
  then show "length (raw (commit_entity fmt10 form ent)) = length (raw ent)"
    by (rule length_commit_entity)
next
  assume "tag_ok ''posi'' (raw ent) \<and> sync_entity_raw fmt10 ent = Inr ent'"
  then show "length (raw ent') = length (raw ent)"
    using length_sync_entity_raw by blast
next
  assume h: "commit_loop_ok fmt10 form sel (entities st) \<and> refs_in_range st"
  have "map (\<lambda>e. length (raw e)) (snd (commit_batch_changes fmt10 form sel (entities st)))
          = map (\<lambda>e. length (raw e)) (entities st)"
    using h commit_loop_lengths [of fmt10 form sel "entities st"]
    by (simp add: commit_batch_changes_def)
  then show "length (save_text (st\<lparr>entities := snd (commit_batch_changes fmt10 form sel (entities st))\<rparr>))
        = length (save_text st)"
    using h by (intro save_text_length_cong) simp_all
qed

theorem edits_keep_length_example:
  "commit_tags_ok ex_fmt ex_form_ok ex_ent_small
   \<and> length (raw (commit_entity ex_fmt ex_form_ok ex_ent_small)) = length (raw ex_ent_small)
   \<and> tag_ok ''posi'' (raw ex_ent_small)
   \<and> sync_entity_raw ex_fmt ex_ent_small = Inr ex_ent_small
   \<and> length (save_text (ex_state\<lparr>entities :=
         snd (commit_batch_changes ex_fmt ex_form_ok [0] (entities ex_state))\<rparr>))
       = length (save_text ex_state)"
proof -
  have t: "tag_ok ''posi'' (raw ex_ent_small)"
    by (simp add: tag_ok_def ex_ent_small_def blank_entity_def lit_def startswith_def)
  have l: "commit_loop_ok ex_fmt ex_form_ok [0] (entities ex_state) \<and> refs_in_range ex_state"
    using ex_ok_tags by (simp add: ex_state_def refs_in_range_def)
  from edits_keep_length_when_tags_ok [THEN conjunct1, rule_format, OF ex_ok_tags]
    edits_keep_length_when_tags_ok [THEN conjunct2, THEN conjunct1, rule_format, OF conjI [OF t ex_sync_small]]
    edits_keep_length_when_tags_ok [THEN conjunct2, THEN conjunct2, rule_format, OF l]
    ex_ok_tags t ex_sync_small
  show ?thesis by simp
qed

text \<open>
  C6. The claim is that \<open>build_smidata_text\<close> keeps the length of the block's text when
  each attribute key occurs at most once. It fails on the block
  \<open><SMiData xa="12345" a="1"/>\<close> with nothing edited: the pattern for the key \<open>a\<close> is
  not anchored at the start of a key, so it first matches inside \<open>xa="12345"\<close>, and the
  five characters of that value are replaced by the one character of the value of \<open>a\<close>.
  The text shrinks from 27 to 23 characters.
\<close>

theorem C6_build_shrinks_block:
  "build_smidata_text ex_smi_entries ex_smi_text = lit ''<SMiData xa=\"1\" a=\"1\"/>''
   \<and> length ex_smi_text = 27
   \<and> length (build_smidata_text ex_smi_entries ex_smi_text) = 23"
  by (simp add: build_smidata_text_def ex_smi_entries_def ex_smi_text_def fit_value_def
      match_here_def startswith_def py_isspace_def lit_def Let_def)

text \<open>
  Where the build does keep the length: when every substitution replaces a value as long
  as the original value of its entry.
\<close>

theorem build_keeps_length_when_values_fit:
  "values_fit es tx \<longrightarrow> length (build_smidata_text es tx) = length tx"
  using length_build_smidata_text by blast

text \<open>
  C7. When \<open>snap_to_plane\<close> succeeds on the plane \<open>(a, b, c, d)\<close>, every selected entity
  satisfies \<open>a * x + b * z + c * y + d = 0\<close> afterwards (over the reals), only the chosen
  coordinate of an entity can differ from before, and unselected entities are untouched.
\<close>

theorem C7_snap_on_plane:
  assumes run: "snap_to_plane fmt10 sel_plane_idx sel planes ents = Inr (r, ents')"
    and ok: "r = Snapped n sa \<or> r = Nothing_changed"
    and cf: "coeffs (planes ! hd sel_plane_idx) = (a, b, c, d)"
  shows "length ents' = length ents
     \<and> (\<forall>i \<in> set sel. a * pos_x (ents' ! i) + b * pos_z (ents' ! i) + c * pos_y (ents' ! i) + d = 0)
     \<and> (\<forall>i < length ents. \<forall>ax. ax \<noteq> choose_axis (a, b, c, d) \<longrightarrow>
           get_axis ax (ents' ! i) = get_axis ax (ents ! i))
     \<and> (\<forall>i < length ents. i \<notin> set sel \<longrightarrow> ents' ! i = ents ! i)"
proof -
  define ch where "ch = choose_axis (a, b, c, d)"
  define denom where "denom = (if ch = AxY then c else if ch = AxZ then b else a)"
  from run ok cf obtain cnt where
    loop: "snap_loop fmt10 ch (a, b, c, d) sel ents 0 = (None, ents', cnt)"
    and big: "\<not> \<bar>denom\<bar> < 1 / 1000000"
    by (auto simp: snap_to_plane_def Let_def ch_def denom_def split: if_splits option.splits prod.splits)
  from snap_loop_inv [OF loop] have
    len: "length ents' = length ents"
    and oth: "\<forall>i < length ents. \<forall>ax. ax \<noteq> ch \<longrightarrow> get_axis ax (ents' ! i) = get_axis ax (ents ! i)"
    and at: "\<forall>i \<in> set sel. i < length ents \<and> get_axis ch (ents' ! i) = snap_val ch (a, b, c, d) (ents ! i)"
    and out: "\<forall>i < length ents. i \<notin> set sel \<longrightarrow> ents' ! i = ents ! i"
    by auto
  have nz: "denom \<noteq> 0" using big by auto
  have eq: "a * pos_x (ents' ! i) + b * pos_z (ents' ! i) + c * pos_y (ents' ! i) + d = 0"
    if "i \<in> set sel" for i
  proof -
    from at that have inb: "i < length ents"
      and v: "get_axis ch (ents' ! i) = snap_val ch (a, b, c, d) (ents ! i)" by auto
    have o: "ax \<noteq> ch \<Longrightarrow> get_axis ax (ents' ! i) = get_axis ax (ents ! i)" for ax
      using oth inb by simp
    show ?thesis
    proof (cases ch)
      case AxX
      with nz have "a \<noteq> 0" by (simp add: denom_def)
      with v o [of AxY] o [of AxZ] AxX show ?thesis
        by (simp add: snap_val_def field_simps)
    next
      case AxY
      with nz have "c \<noteq> 0" by (simp add: denom_def)
      with v o [of AxX] o [of AxZ] AxY show ?thesis
        by (simp add: snap_val_def field_simps)
    next
      case AxZ
      with nz have "b \<noteq> 0" by (simp add: denom_def)
      with v o [of AxX] o [of AxY] AxZ show ?thesis
        by (simp add: snap_val_def field_simps)
    qed
  qed
  from len eq oth out show ?thesis unfolding ch_def by blast
qed

theorem C7_witness:
  "snap_to_plane ex_fmt [0] [0] [ex_plane] [ex_posi_ent]
     = Inr (Snapped 1 AxY,
            [ex_posi_ent\<lparr>raw := lit ''<posi>1 5 3</posi>'', p_raw_content := lit ''1 5 3'',
               pos_y := 5\<rparr>])
   \<and> coeffs ([ex_plane] ! hd [0]) = (0, 0, 1, - 5)
   \<and> 0 * pos_x (ex_posi_ent\<lparr>raw := lit ''<posi>1 5 3</posi>'', p_raw_content := lit ''1 5 3'',
               pos_y := 5\<rparr>)
       + 0 * pos_z (ex_posi_ent\<lparr>raw := lit ''<posi>1 5 3</posi>'',
               p_raw_content := lit ''1 5 3'', pos_y := 5\<rparr>)
       + 1 * pos_y (ex_posi_ent\<lparr>raw := lit ''<posi>1 5 3</posi>'',
               p_raw_content := lit ''1 5 3'', pos_y := 5\<rparr>) + (- 5) = (0::real)"
proof -
  have cf: "coeffs ([ex_plane] ! hd [0]) = (0, 0, 1, - 5)" by (simp add: ex_plane_def)
  have ok: "Snapped 1 AxY = Snapped 1 AxY \<or> Snapped 1 AxY = Nothing_changed" by simp
  from C7_snap_on_plane [OF ex_snap_run ok cf] ex_snap_run cf show ?thesis by simp
qed

text \<open>
  C8 as stated fails. \<open>load_file\<close> replaces the entities and leaves
  \<open>selected_indices\<close> as it was, so a selected index can lie beyond the entity list.
  Then, with three entities selected and no plane yet, reading the entity raises
  IndexError: no plane is appended and no warning is shown.
\<close>

theorem C8_counterexample:
  "3 \<le> length [0, 1, 7 :: nat] \<and> length [0, 1, 7 :: nat] \<le> 5
   \<and> length (filter (\<lambda>p. \<not> is_auto p) ([] :: plane list)) < 5
   \<and> length ex_three = 3
   \<and> create_plane_from_selection (\<lambda>ps. (0, 0, 1)) (\<lambda>k h. lit ''Plane'') [0, 1, 7] ex_three []
       = Inl IndexError"
  by (simp add: create_plane_from_selection_def ex_three_def)

text \<open>
  C8, as amended. When every selected index is an index of the entity list,
  \<open>create_plane_from_selection\<close> appends one plane exactly when 3 to 5 entities are
  selected and fewer than 5 planes that are not automatic exist; whenever one of these
  two guards fails it shows a warning and leaves the plane list as it was.
\<close>

theorem C8_plane_iff:
  "((\<forall>i \<in> set sel. i < length ents) \<and> 3 \<le> length sel \<and> length sel \<le> 5
      \<and> length (filter (\<lambda>p. \<not> is_auto p) planes) < 5
     \<longrightarrow> (\<exists>p. create_plane_from_selection svd_normal plane_name sel ents planes
                 = Inr (None, planes @ [p])))
   \<and> (\<not> (3 \<le> length sel \<and> length sel \<le> 5
          \<and> length (filter (\<lambda>p. \<not> is_auto p) planes) < 5)
     \<longrightarrow> (\<exists>w. create_plane_from_selection svd_normal plane_name sel ents planes
                 = Inr (Some w, planes)))"
proof -
  have no_bad: "(\<forall>i \<in> set sel. i < length ents) \<Longrightarrow> \<not> list_ex (\<lambda>i. length ents \<le> i) sel"
    by (auto simp: list_ex_iff)
  show ?thesis
    by (auto simp: create_plane_from_selection_def Let_def no_bad split: prod.splits)
qed

theorem C8_witness:
  "(\<exists>p. create_plane_from_selection (\<lambda>ps. (0, 0, 1)) (\<lambda>k h. lit ''Plane'') [0, 1, 2] ex_three []
          = Inr (None, [p]))
   \<and> (\<exists>w. create_plane_from_selection (\<lambda>ps. (0, 0, 1)) (\<lambda>k h. lit ''Plane'') [0, 1] ex_three []
          = Inr (Some w, []))"
  using C8_plane_iff [where sel = "[0, 1, 2]" and ents = ex_three and planes = "[]"
      and svd_normal = "\<lambda>ps. (0, 0, 1)" and plane_name = "\<lambda>k h. lit ''Plane''"]
    C8_plane_iff [where sel = "[0, 1]" and ents = ex_three and planes = "[]"
      and svd_normal = "\<lambda>ps. (0, 0, 1)" and plane_name = "\<lambda>k h. lit ''Plane''"]
  by (simp add: ex_three_def)

text \<open>
  C10. \<open>get_depth\<close> terminates on every entity list, cyclic parent links included: the
  loop is a total function (its termination proof counts the keys of the parent map that
  are not yet visited), and it returns a depth of at most the number of keys of the map.
\<close>

theorem C10_get_depth_terminates:
  "idx < length ents \<Longrightarrow>
     \<exists>d. get_depth ents idx = Inr d \<and> d \<le> card (pmap_keys (parent_map ents))"
  using get_depth_loop_bound [of "parent_map ents" ents _ "{}" 0]
  by (simp add: get_depth_def parent_map_range)

theorem C10_witness:
  "0 < length ex_cycle \<and> get_depth ex_cycle 0 = Inr 2
   \<and> (2::nat) \<le> card (pmap_keys (parent_map ex_cycle))"
proof -
  have l: "0 < length ex_cycle" by (simp add: ex_cycle_def)
  from C10_get_depth_terminates [OF l] obtain d where
    "get_depth ex_cycle 0 = Inr d" and "d \<le> card (pmap_keys (parent_map ex_cycle))" by blast
  with ex_cycle_depth l show ?thesis by simp
qed

end
